theory Spec2Isabelle
  imports Main "HOL-Library.Word" "HOL-Library.AList" "HOL-Library.Sublist"
begin

unbundle bit_operations_syntax

section \<open>The platform underneath the store\<close>

text \<open>
  The store (\<^verbatim>\<open>src/index.mjs\<close>) is a class over three Node.js modules:
  \<^verbatim>\<open>node:crypto\<close> (MD5), \<^verbatim>\<open>node:path\<close> and \<^verbatim>\<open>node:fs/promises\<close>, plus the built-in
  \<^verbatim>\<open>JSON\<close> and \<^verbatim>\<open>Buffer\<close>. This section models what the store uses of them, on a
  POSIX system; the next section translates the class itself, method by method.

  Conventions. A \<^verbatim>\<open>Buffer\<close> is a list of bytes. A JavaScript string is represented by
  the bytes of its UTF-8 encoding, as an Isabelle \<^typ>\<open>string\<close> (a list of 8-bit
  characters); strings with unpaired surrogates and files that are not well-formed UTF-8
  have no representation of their own (decoding does not insert U+FFFD). Under this
  representation \<^verbatim>\<open>Buffer.from(str)\<close> and \<^verbatim>\<open>buf.toString('utf8')\<close> only change the type.
\<close>

subsection \<open>Buffers and strings\<close>

type_synonym byte = "8 word"

definition Buffer_from :: "string \<Rightarrow> byte list" where
  "Buffer_from s = map (\<lambda>c. of_nat (of_char c)) s"

definition Buffer_toString :: "byte list \<Rightarrow> string" where
  "Buffer_toString b = map (\<lambda>x. char_of (unat x)) b"

subsection \<open>MD5 (RFC 1321), as \<^verbatim>\<open>crypto.createHash('md5')\<close> computes it\<close>

type_synonym u32 = "32 word"

definition md5_K :: "u32 list" where
  "md5_K = [
    0xd76aa478, 0xe8c7b756, 0x242070db, 0xc1bdceee, 0xf57c0faf, 0x4787c62a, 0xa8304613, 0xfd469501,
    0x698098d8, 0x8b44f7af, 0xffff5bb1, 0x895cd7be, 0x6b901122, 0xfd987193, 0xa679438e, 0x49b40821,
    0xf61e2562, 0xc040b340, 0x265e5a51, 0xe9b6c7aa, 0xd62f105d, 0x02441453, 0xd8a1e681, 0xe7d3fbc8,
    0x21e1cde6, 0xc33707d6, 0xf4d50d87, 0x455a14ed, 0xa9e3e905, 0xfcefa3f8, 0x676f02d9, 0x8d2a4c8a,
    0xfffa3942, 0x8771f681, 0x6d9d6122, 0xfde5380c, 0xa4beea44, 0x4bdecfa9, 0xf6bb4b60, 0xbebfbc70,
    0x289b7ec6, 0xeaa127fa, 0xd4ef3085, 0x04881d05, 0xd9d4d039, 0xe6db99e5, 0x1fa27cf8, 0xc4ac5665,
    0xf4292244, 0x432aff97, 0xab9423a7, 0xfc93a039, 0x655b59c3, 0x8f0ccc92, 0xffeff47d, 0x85845dd1,
    0x6fa87e4f, 0xfe2ce6e0, 0xa3014314, 0x4e0811a1, 0xf7537e82, 0xbd3af235, 0x2ad7d2bb, 0xeb86d391]"

definition md5_s :: "nat list" where
  "md5_s = [
    7, 12, 17, 22, 7, 12, 17, 22, 7, 12, 17, 22, 7, 12, 17, 22,
    5, 9, 14, 20, 5, 9, 14, 20, 5, 9, 14, 20, 5, 9, 14, 20,
    4, 11, 16, 23, 4, 11, 16, 23, 4, 11, 16, 23, 4, 11, 16, 23,
    6, 10, 15, 21, 6, 10, 15, 21, 6, 10, 15, 21, 6, 10, 15, 21]"

definition rotl32 :: "u32 \<Rightarrow> nat \<Rightarrow> u32" where
  "rotl32 x n = push_bit n x OR drop_bit (32 - n) x"

text \<open>One of the 64 operations on the state \<open>(A, B, C, D)\<close>, for the block \<open>M\<close> of 16 words.\<close>

definition md5_step :: "u32 list \<Rightarrow> u32 \<times> u32 \<times> u32 \<times> u32 \<Rightarrow> nat \<Rightarrow> u32 \<times> u32 \<times> u32 \<times> u32" where
  "md5_step M st i = (case st of (a, b, c, d) \<Rightarrow>
     (let f = (if i < 16 then (b AND c) OR (NOT b AND d)
               else if i < 32 then (d AND b) OR (NOT d AND c)
               else if i < 48 then b XOR c XOR d
               else c XOR (b OR NOT d));
          g = (if i < 16 then i
               else if i < 32 then (5 * i + 1) mod 16
               else if i < 48 then (3 * i + 5) mod 16
               else (7 * i) mod 16)
      in (d, b + rotl32 (f + a + md5_K ! i + M ! g) (md5_s ! i), b, c)))"

definition md5_block :: "u32 \<times> u32 \<times> u32 \<times> u32 \<Rightarrow> u32 list \<Rightarrow> u32 \<times> u32 \<times> u32 \<times> u32" where
  "md5_block st M = (case st of (a0, b0, c0, d0) \<Rightarrow>
     (case foldl (md5_step M) st [0..<64] of (a, b, c, d) \<Rightarrow> (a0 + a, b0 + b, c0 + c, d0 + d)))"

fun le_words :: "byte list \<Rightarrow> u32 list" where
  "le_words (b0 # b1 # b2 # b3 # bs) =
     (ucast b0 OR push_bit 8 (ucast b1) OR push_bit 16 (ucast b2) OR push_bit 24 (ucast b3)) # le_words bs"
| "le_words _ = []"

fun md5_blocks :: "u32 \<times> u32 \<times> u32 \<times> u32 \<Rightarrow> u32 list \<Rightarrow> u32 \<times> u32 \<times> u32 \<times> u32" where
  "md5_blocks st (w0 # w1 # w2 # w3 # w4 # w5 # w6 # w7 # w8 # w9 # w10 # w11 # w12 # w13 # w14 # w15 # ws) =
     md5_blocks (md5_block st [w0, w1, w2, w3, w4, w5, w6, w7, w8, w9, w10, w11, w12, w13, w14, w15]) ws"
| "md5_blocks st _ = st"

definition le32_bytes :: "u32 \<Rightarrow> byte list" where
  "le32_bytes w = [ucast w, ucast (drop_bit 8 w), ucast (drop_bit 16 w), ucast (drop_bit 24 w)]"

definition le64_bytes :: "64 word \<Rightarrow> byte list" where
  "le64_bytes w = [ucast w, ucast (drop_bit 8 w), ucast (drop_bit 16 w), ucast (drop_bit 24 w),
                   ucast (drop_bit 32 w), ucast (drop_bit 40 w), ucast (drop_bit 48 w), ucast (drop_bit 56 w)]"

text \<open>Padding: a 1 bit, 0 bits up to 56 bytes modulo 64, then the bit length as 64 bits.\<close>

definition md5_pad :: "byte list \<Rightarrow> byte list" where
  "md5_pad m = m @ [0x80] @ replicate ((119 - length m mod 64) mod 64) 0
                 @ le64_bytes (of_nat (8 * length m))"

definition md5 :: "byte list \<Rightarrow> byte list" where
  "md5 m = (case md5_blocks (0x67452301, 0xefcdab89, 0x98badcfe, 0x10325476) (le_words (md5_pad m)) of
     (a, b, c, d) \<Rightarrow> le32_bytes a @ le32_bytes b @ le32_bytes c @ le32_bytes d)"

definition hex_digit :: "nat \<Rightarrow> char" where
  "hex_digit n = ''0123456789abcdef'' ! n"

text \<open>\<^verbatim>\<open>digest('hex')\<close>: two lowercase hexadecimal digits per byte.\<close>

definition hex :: "byte list \<Rightarrow> string" where
  "hex bs = concat (map (\<lambda>b. [hex_digit (unat b div 16), hex_digit (unat b mod 16)]) bs)"

subsection \<open>JSON values, \<^verbatim>\<open>JSON.stringify\<close> and \<^verbatim>\<open>JSON.parse\<close>\<close>

text \<open>
  A number is kept as its lexeme: the store never computes with one. A JavaScript value
  that may also be \<^verbatim>\<open>undefined\<close> is a \<open>jsvalue\<close>.
\<close>

datatype json = JNull | JBool bool | JNumber string | JString string
  | JArray "json list" | JObject "(string \<times> json) list"

datatype jsvalue = Undefined | Val json

text \<open>\<^verbatim>\<open>QuoteJSONString\<close> of ECMA-262, on well-formed strings.\<close>

definition quote_char :: "char \<Rightarrow> string" where
  "quote_char c =
     (if c = CHR 0x22 then [CHR 0x5C, CHR 0x22]
      else if c = CHR 0x5C then [CHR 0x5C, CHR 0x5C]
      else if c = CHR 0x08 then [CHR 0x5C, CHR ''b'']
      else if c = CHR 0x0C then [CHR 0x5C, CHR ''f'']
      else if c = CHR 0x0A then [CHR 0x5C, CHR ''n'']
      else if c = CHR 0x0D then [CHR 0x5C, CHR ''r'']
      else if c = CHR 0x09 then [CHR 0x5C, CHR ''t'']
      else if (of_char c :: nat) < 0x20
        then [CHR 0x5C, CHR ''u'', CHR ''0'', CHR ''0'', hex_digit (of_char c div 16), hex_digit (of_char c mod 16)]
      else [c])"

definition quote_chars :: "string \<Rightarrow> string" where
  "quote_chars s = concat (map quote_char s)"

definition QuoteJSONString :: "string \<Rightarrow> string" where
  "QuoteJSONString s = [CHR 0x22] @ quote_chars s @ [CHR 0x22]"

fun join_with :: "'a list \<Rightarrow> 'a list list \<Rightarrow> 'a list" where
  "join_with sep [] = []"
| "join_with sep [x] = x"
| "join_with sep (x # y # ys) = x @ sep @ join_with sep (y # ys)"

fun JSON_stringify :: "json \<Rightarrow> string" where
  "JSON_stringify JNull = ''null''"
| "JSON_stringify (JBool b) = (if b then ''true'' else ''false'')"
| "JSON_stringify (JNumber n) = n"
| "JSON_stringify (JString s) = QuoteJSONString s"
| "JSON_stringify (JArray vs) = ''['' @ join_with '','' (map JSON_stringify vs) @ '']''"
| "JSON_stringify (JObject kvs) =
     ''{'' @ join_with '','' (map (\<lambda>kv. QuoteJSONString (fst kv) @ '':'' @ JSON_stringify (snd kv)) kvs) @ ''}''"

definition is_ws :: "char \<Rightarrow> bool" where
  "is_ws c = (c = CHR '' '' \<or> c = CHR 0x09 \<or> c = CHR 0x0A \<or> c = CHR 0x0D)"

fun skip_ws :: "string \<Rightarrow> string" where
  "skip_ws [] = []"
| "skip_ws (c # cs) = (if is_ws c then skip_ws cs else c # cs)"

definition hex_val :: "char \<Rightarrow> nat option" where
  "hex_val c = (let n = (of_char c :: nat) in
     if 0x30 \<le> n \<and> n \<le> 0x39 then Some (n - 0x30)
     else if 0x61 \<le> n \<and> n \<le> 0x66 then Some (n - 0x61 + 10)
     else if 0x41 \<le> n \<and> n \<le> 0x46 then Some (n - 0x41 + 10)
     else None)"

definition hex4 :: "char \<Rightarrow> char \<Rightarrow> char \<Rightarrow> char \<Rightarrow> nat option" where
  "hex4 a b c d = (case (hex_val a, hex_val b, hex_val c, hex_val d) of
      (Some x, Some y, Some z, Some w) \<Rightarrow> Some (((x * 16 + y) * 16 + z) * 16 + w)
    | _ \<Rightarrow> None)"

text \<open>
  The characters of a string literal, up to its closing quote: a character as it stands
  (\<open>Raw\<close>, also for the two-character escapes) or the code unit of a four-digit \<^verbatim>\<open>u\<close> escape
  (\<open>Esc\<close>). A control character below U+0020 is a syntax error.
\<close>

datatype item = Raw char | Esc nat

fun parse_items :: "string \<Rightarrow> (item list \<times> string) option" where
  "parse_items [] = None"
| "parse_items (c # cs) =
     (if c = CHR 0x22 then Some ([], cs)
      else if c = CHR 0x5C then
        (case cs of
           [] \<Rightarrow> None
         | e # r \<Rightarrow>
            if e = CHR ''u'' then
              (case r of
                 h1 # h2 # h3 # h4 # r' \<Rightarrow>
                   (case hex4 h1 h2 h3 h4 of
                      None \<Rightarrow> None
                    | Some n \<Rightarrow> map_option (\<lambda>(is, rest). (Esc n # is, rest)) (parse_items r'))
               | _ \<Rightarrow> None)
            else
              (case (if e = CHR 0x22 then Some (CHR 0x22)
                     else if e = CHR 0x5C then Some (CHR 0x5C)
                     else if e = CHR ''/'' then Some (CHR ''/'')
                     else if e = CHR ''b'' then Some (CHR 0x08)
                     else if e = CHR ''f'' then Some (CHR 0x0C)
                     else if e = CHR ''n'' then Some (CHR 0x0A)
                     else if e = CHR ''r'' then Some (CHR 0x0D)
                     else if e = CHR ''t'' then Some (CHR 0x09)
                     else None) of
                 None \<Rightarrow> None
               | Some x \<Rightarrow> map_option (\<lambda>(is, rest). (Raw x # is, rest)) (parse_items r)))
      else if (of_char c :: nat) < 0x20 then None
      else map_option (\<lambda>(is, rest). (Raw c # is, rest)) (parse_items cs))"

text \<open>The UTF-8 bytes of a code point (three bytes also for a lone surrogate).\<close>

definition utf8 :: "nat \<Rightarrow> string" where
  "utf8 n =
     (if n < 0x80 then [char_of n]
      else if n < 0x800 then [char_of (0xC0 + n div 0x40), char_of (0x80 + n mod 0x40)]
      else if n < 0x10000 then
        [char_of (0xE0 + n div 0x1000), char_of (0x80 + n div 0x40 mod 0x40), char_of (0x80 + n mod 0x40)]
      else [char_of (0xF0 + n div 0x40000), char_of (0x80 + n div 0x1000 mod 0x40),
            char_of (0x80 + n div 0x40 mod 0x40), char_of (0x80 + n mod 0x40)])"

definition high_surrogate :: "nat \<Rightarrow> bool" where
  "high_surrogate n = (0xD800 \<le> n \<and> n < 0xDC00)"

definition low_surrogate :: "nat \<Rightarrow> bool" where
  "low_surrogate n = (0xDC00 \<le> n \<and> n < 0xE000)"

fun encode_items :: "item list \<Rightarrow> string" where
  "encode_items [] = []"
| "encode_items (Raw c # is) = c # encode_items is"
| "encode_items (Esc h # Esc l # is) =
     (if high_surrogate h \<and> low_surrogate l
      then utf8 (0x10000 + (h - 0xD800) * 0x400 + (l - 0xDC00)) @ encode_items is
      else utf8 h @ encode_items (Esc l # is))"
| "encode_items (Esc n # is) = utf8 n @ encode_items is"

definition parse_string :: "string \<Rightarrow> (string \<times> string) option" where
  "parse_string s = map_option (\<lambda>(is, rest). (encode_items is, rest)) (parse_items s)"

definition is_digit :: "char \<Rightarrow> bool" where
  "is_digit c = (0x30 \<le> (of_char c :: nat) \<and> (of_char c :: nat) \<le> 0x39)"

definition parse_digits :: "string \<Rightarrow> (string \<times> string) option" where
  "parse_digits s = (if takeWhile is_digit s = [] then None
                     else Some (takeWhile is_digit s, dropWhile is_digit s))"

definition parse_int_part :: "string \<Rightarrow> (string \<times> string) option" where
  "parse_int_part s = (case s of
       [] \<Rightarrow> None
     | c # r \<Rightarrow> if c = CHR ''0'' then Some (''0'', r) else parse_digits s)"

definition parse_frac :: "string \<Rightarrow> (string \<times> string) option" where
  "parse_frac s = (case s of
       [] \<Rightarrow> Some ([], s)
     | c # r \<Rightarrow> if c = CHR ''.''
                then map_option (\<lambda>(ds, rest). (c # ds, rest)) (parse_digits r)
                else Some ([], s))"

definition parse_exp :: "string \<Rightarrow> (string \<times> string) option" where
  "parse_exp s = (case s of
       [] \<Rightarrow> Some ([], s)
     | c # r \<Rightarrow>
        if c = CHR ''e'' \<or> c = CHR ''E'' then
          (case r of
             [] \<Rightarrow> None
           | g # r' \<Rightarrow>
              if g = CHR ''+'' \<or> g = CHR ''-''
              then map_option (\<lambda>(ds, rest). (c # g # ds, rest)) (parse_digits r')
              else map_option (\<lambda>(ds, rest). (c # ds, rest)) (parse_digits r))
        else Some ([], s))"

definition parse_number :: "string \<Rightarrow> (string \<times> string) option" where
  "parse_number s =
     (let (sign, s1) = (case s of [] \<Rightarrow> ([], s) | c # r \<Rightarrow> if c = CHR ''-'' then ([c], r) else ([], s))
      in case parse_int_part s1 of
           None \<Rightarrow> None
         | Some (i, s2) \<Rightarrow>
            (case parse_frac s2 of
               None \<Rightarrow> None
             | Some (f, s3) \<Rightarrow>
                (case parse_exp s3 of
                   None \<Rightarrow> None
                 | Some (e, s4) \<Rightarrow> Some (sign @ i @ f @ e, s4))))"

fun strip_prefix :: "string \<Rightarrow> string \<Rightarrow> string option" where
  "strip_prefix [] s = Some s"
| "strip_prefix (p # ps) [] = None"
| "strip_prefix (p # ps) (c # cs) = (if p = c then strip_prefix ps cs else None)"

text \<open>
  The recursive-descent parser. The first argument bounds the nesting and the number of
  elements; \<open>JSON_parse\<close> starts it above the length of the text, which no parse
  uses up (lemma \<open>JSON_parse_fuel\<close> below). \<open>None\<close> is the \<^verbatim>\<open>SyntaxError\<close>.
\<close>

fun parse_value :: "nat \<Rightarrow> string \<Rightarrow> (json \<times> string) option"
  and parse_elements :: "nat \<Rightarrow> string \<Rightarrow> (json list \<times> string) option"
  and parse_members :: "nat \<Rightarrow> string \<Rightarrow> ((string \<times> json) list \<times> string) option"
where
  "parse_value 0 s = None"
| "parse_value (Suc n) s =
     (case s of
        [] \<Rightarrow> None
      | c # r \<Rightarrow>
         if c = CHR 0x22 then map_option (\<lambda>(x, rest). (JString x, rest)) (parse_string r)
         else if c = CHR ''['' then
           (case skip_ws r of
              [] \<Rightarrow> None
            | d # r' \<Rightarrow> if d = CHR '']'' then Some (JArray [], r')
                        else map_option (\<lambda>(vs, rest). (JArray vs, rest)) (parse_elements n (d # r')))
         else if c = CHR ''{'' then
           (case skip_ws r of
              [] \<Rightarrow> None
            | d # r' \<Rightarrow> if d = CHR ''}'' then Some (JObject [], r')
                        else map_option (\<lambda>(kvs, rest). (JObject kvs, rest)) (parse_members n (d # r')))
         else (case strip_prefix ''null'' s of
            Some rest \<Rightarrow> Some (JNull, rest)
          | None \<Rightarrow> (case strip_prefix ''true'' s of
            Some rest \<Rightarrow> Some (JBool True, rest)
          | None \<Rightarrow> (case strip_prefix ''false'' s of
            Some rest \<Rightarrow> Some (JBool False, rest)
          | None \<Rightarrow> map_option (\<lambda>(x, rest). (JNumber x, rest)) (parse_number s)))))"
| "parse_elements 0 s = None"
| "parse_elements (Suc n) s =
     (case parse_value (Suc n) s of
        None \<Rightarrow> None
      | Some (v, r) \<Rightarrow>
         (case skip_ws r of
            [] \<Rightarrow> None
          | d # r' \<Rightarrow>
             if d = CHR '']'' then Some ([v], r')
             else if d = CHR '','' then
               map_option (\<lambda>(vs, rest). (v # vs, rest)) (parse_elements n (skip_ws r'))
             else None))"
| "parse_members 0 s = None"
| "parse_members (Suc n) s =
     (case s of
        [] \<Rightarrow> None
      | q # r0 \<Rightarrow>
         if q \<noteq> CHR 0x22 then None
         else
           (case parse_string r0 of
              None \<Rightarrow> None
            | Some (k, r1) \<Rightarrow>
               (case skip_ws r1 of
                  [] \<Rightarrow> None
                | c # r2 \<Rightarrow>
                   if c \<noteq> CHR '':'' then None
                   else
                     (case parse_value (Suc n) (skip_ws r2) of
                        None \<Rightarrow> None
                      | Some (v, r3) \<Rightarrow>
                         (case skip_ws r3 of
                            [] \<Rightarrow> None
                          | d # r4 \<Rightarrow>
                             if d = CHR ''}'' then Some ([(k, v)], r4)
                             else if d = CHR '','' then
                               map_option (\<lambda>(kvs, rest). ((k, v) # kvs, rest)) (parse_members n (skip_ws r4))
                             else None)))))"

definition JSON_parse :: "string \<Rightarrow> json option" where
  "JSON_parse s =
     (case parse_value (Suc (length s)) (skip_ws s) of
        None \<Rightarrow> None
      | Some (v, rest) \<Rightarrow> if skip_ws rest = [] then Some v else None)"

text \<open>
  \<^verbatim>\<open>!v\<close> is \<open>\<not> truthy v\<close>. A number is falsy when it is zero; a lexeme whose digits
  before the exponent are all 0 is zero (underflow to zero is left out: no result of the
  store depends on it, since a number has no \<^verbatim>\<open>etag\<close> property).
\<close>

definition truthy :: "json \<Rightarrow> bool" where
  "truthy v = (case v of
       JNull \<Rightarrow> False
     | JBool b \<Rightarrow> b
     | JNumber n \<Rightarrow> \<not> list_all (\<lambda>c. \<not> is_digit c \<or> c = CHR ''0'')
                       (takeWhile (\<lambda>c. c \<noteq> CHR ''e'' \<and> c \<noteq> CHR ''E'') n)
     | JString s \<Rightarrow> s \<noteq> []
     | JArray vs \<Rightarrow> True
     | JObject kvs \<Rightarrow> True)"

text \<open>
  \<^verbatim>\<open>v?.name\<close> for a value \<open>v\<close> that \<^verbatim>\<open>JSON.parse\<close> returned (or \<^verbatim>\<open>null\<close>): the own
  property of an object, where the last of several members of one name counts;
  \<^verbatim>\<open>undefined\<close> for \<^verbatim>\<open>null\<close> and for anything else (the store reads \<^verbatim>\<open>etag\<close> only,
  which no primitive, array or prototype has).
\<close>

definition js_prop :: "json \<Rightarrow> string \<Rightarrow> jsvalue" where
  "js_prop v name = (case v of
       JObject kvs \<Rightarrow> (case map_of (rev kvs) name of None \<Rightarrow> Undefined | Some x \<Rightarrow> Val x)
     | _ \<Rightarrow> Undefined)"

subsection \<open>Paths (\<^verbatim>\<open>node:path\<close>, POSIX)\<close>

text \<open>
  An absolute, normalised path is the list of its segments and whether it ends in a
  slash: \<^verbatim>\<open>/a/b/\<close> is \<open>Path [''a'', ''b''] True\<close>.
\<close>

datatype path = Path (segs: "string list") (trailing: bool)

fun split_slash :: "string \<Rightarrow> string list" where
  "split_slash [] = [[]]"
| "split_slash (c # cs) =
     (if c = CHR ''/'' then [] # split_slash cs
      else (case split_slash cs of [] \<Rightarrow> [[c]] | x # xs \<Rightarrow> (c # x) # xs))"

text \<open>Normalisation of one more segment: \<^verbatim>\<open>.\<close> and the empty segment are dropped,
  \<^verbatim>\<open>..\<close> removes the last segment (and is dropped at the root).\<close>

definition norm_step :: "string list \<Rightarrow> string \<Rightarrow> string list" where
  "norm_step stack seg =
     (if seg = [] \<or> seg = ''.'' then stack
      else if seg = ''..'' then butlast stack
      else stack @ [seg])"

text \<open>\<^verbatim>\<open>path.join(p, s)\<close> for an absolute \<open>p\<close>: an empty \<open>s\<close> is skipped, otherwise
  \<^verbatim>\<open>p + '/' + s\<close> is normalised and keeps the trailing slash of \<open>s\<close>.\<close>

definition path_join :: "path \<Rightarrow> string \<Rightarrow> path" where
  "path_join p s =
     (if s = [] then p
      else Path (foldl norm_step (segs p) (split_slash s)) (last s = CHR ''/''))"

definition path_dirname :: "path \<Rightarrow> path" where
  "path_dirname p = Path (butlast (segs p)) False"

fun drop_common :: "string list \<Rightarrow> string list \<Rightarrow> string list \<times> string list" where
  "drop_common (x # xs) (y # ys) = (if x = y then drop_common xs ys else (x # xs, y # ys))"
| "drop_common xs ys = (xs, ys)"

text \<open>\<^verbatim>\<open>path.relative(from, to)\<close>: one \<^verbatim>\<open>..\<close> for every segment of \<open>from\<close> below the
  common ancestor, then the rest of \<open>to\<close>.\<close>

definition path_relative :: "path \<Rightarrow> path \<Rightarrow> string" where
  "path_relative from to = (case drop_common (segs from) (segs to) of
     (f, t) \<Rightarrow> join_with ''/'' (replicate (length f) ''..'' @ t))"

definition endsWith :: "string \<Rightarrow> string \<Rightarrow> bool" where
  "endsWith s suf = (length suf \<le> length s \<and> drop (length s - length suf) s = suf)"

subsection \<open>The file system (\<^verbatim>\<open>node:fs/promises\<close>)\<close>

text \<open>
  A tree of directories and regular files; a directory lists its entries in the order
  \<^verbatim>\<open>readdir\<close> returns them. There are no links, permissions, quotas or name limits: the only
  failures are those of path resolution (\<open>ENOENT\<close>, \<open>ENOTDIR\<close>) and of the kind of the
  node found (\<open>EISDIR\<close>, \<open>EEXIST\<close>), with the codes Linux gives. A file carries its
  modification time; the clock \<open>now\<close> is part of the world.
\<close>

datatype errno = ENOENT | ENOTDIR | EISDIR | EEXIST

datatype node = File "byte list" nat | Dir "(string \<times> node) list"

record world =
  rootdir :: "(string \<times> node) list"
  now :: nat

fun lookup :: "(string \<times> node) list \<Rightarrow> string list \<Rightarrow> errno + node" where
  "lookup es [] = Inr (Dir es)"
| "lookup es (s # p) =
     (case map_of es s of
        None \<Rightarrow> Inl ENOENT
      | Some (File c t) \<Rightarrow> if p = [] then Inr (File c t) else Inl ENOTDIR
      | Some (Dir es') \<Rightarrow> lookup es' p)"

fun write_at :: "(string \<times> node) list \<Rightarrow> string list \<Rightarrow> byte list \<Rightarrow> nat \<Rightarrow> errno + (string \<times> node) list" where
  "write_at es [] c t = Inl EISDIR"
| "write_at es (s # p) c t =
     (case map_of es s of
        None \<Rightarrow> if p = [] then Inr (AList.update s (File c t) es) else Inl ENOENT
      | Some (File c' t') \<Rightarrow> if p = [] then Inr (AList.update s (File c t) es) else Inl ENOTDIR
      | Some (Dir es') \<Rightarrow>
          (case write_at es' p c t of
             Inl e \<Rightarrow> Inl e
           | Inr es'' \<Rightarrow> Inr (AList.update s (Dir es'') es)))"

fun mkdirs :: "string list \<Rightarrow> node" where
  "mkdirs [] = Dir []"
| "mkdirs (s # p) = Dir [(s, mkdirs p)]"

fun mkdir_p :: "(string \<times> node) list \<Rightarrow> string list \<Rightarrow> errno + (string \<times> node) list" where
  "mkdir_p es [] = Inr es"
| "mkdir_p es (s # p) =
     (case map_of es s of
        None \<Rightarrow> Inr (AList.update s (mkdirs p) es)
      | Some (File c t) \<Rightarrow> Inl (if p = [] then EEXIST else ENOTDIR)
      | Some (Dir es') \<Rightarrow>
          (case mkdir_p es' p of
             Inl e \<Rightarrow> Inl e
           | Inr es'' \<Rightarrow> Inr (AList.update s (Dir es'') es)))"

fun unlink_at :: "(string \<times> node) list \<Rightarrow> string list \<Rightarrow> errno + (string \<times> node) list" where
  "unlink_at es [] = Inl EISDIR"
| "unlink_at es (s # p) =
     (case map_of es s of
        None \<Rightarrow> Inl ENOENT
      | Some (File c t) \<Rightarrow> if p = [] then Inr (AList.delete s es) else Inl ENOTDIR
      | Some (Dir es') \<Rightarrow>
          (case unlink_at es' p of
             Inl e \<Rightarrow> Inl e
           | Inr es'' \<Rightarrow> Inr (AList.update s (Dir es'') es)))"

text \<open>The calls themselves. A path with a trailing slash names a directory only.\<close>

definition fs_access :: "path \<Rightarrow> world \<Rightarrow> errno + unit" where
  "fs_access p w =
     (case lookup (rootdir w) (segs p) of
        Inl e \<Rightarrow> Inl e
      | Inr (File c t) \<Rightarrow> if trailing p then Inl ENOTDIR else Inr ()
      | Inr (Dir es) \<Rightarrow> Inr ())"

definition fs_readFile :: "path \<Rightarrow> world \<Rightarrow> errno + byte list" where
  "fs_readFile p w =
     (case lookup (rootdir w) (segs p) of
        Inl e \<Rightarrow> Inl e
      | Inr (File c t) \<Rightarrow> if trailing p then Inl ENOTDIR else Inr c
      | Inr (Dir es) \<Rightarrow> Inl EISDIR)"

definition fs_writeFile :: "path \<Rightarrow> byte list \<Rightarrow> world \<Rightarrow> errno + world" where
  "fs_writeFile p c w =
     (if trailing p then
        (case lookup (rootdir w) (segs p) of
           Inr (File c' t') \<Rightarrow> Inl ENOTDIR
         | Inr (Dir es) \<Rightarrow> Inl EISDIR
         | Inl e \<Rightarrow>
            (case lookup (rootdir w) (butlast (segs p)) of
               Inr (Dir es) \<Rightarrow> Inl EISDIR
             | _ \<Rightarrow> Inl e))
      else
        (case write_at (rootdir w) (segs p) c (now w) of
           Inl e \<Rightarrow> Inl e
         | Inr es \<Rightarrow> Inr (w\<lparr>rootdir := es\<rparr>)))"

text \<open>\<^verbatim>\<open>fs.mkdir(p, { recursive: true })\<close>.\<close>

definition fs_mkdir_recursive :: "path \<Rightarrow> world \<Rightarrow> errno + world" where
  "fs_mkdir_recursive p w =
     (case mkdir_p (rootdir w) (segs p) of
        Inl e \<Rightarrow> Inl e
      | Inr es \<Rightarrow> Inr (w\<lparr>rootdir := es\<rparr>))"

definition fs_unlink :: "path \<Rightarrow> world \<Rightarrow> errno + world" where
  "fs_unlink p w =
     (if trailing p then
        (case lookup (rootdir w) (segs p) of
           Inr (File c t) \<Rightarrow> Inl ENOTDIR
         | Inr (Dir es) \<Rightarrow> Inl EISDIR
         | Inl e \<Rightarrow> Inl e)
      else
        (case unlink_at (rootdir w) (segs p) of
           Inl e \<Rightarrow> Inl e
         | Inr es \<Rightarrow> Inr (w\<lparr>rootdir := es\<rparr>)))"

text \<open>\<^verbatim>\<open>fs.readdir(p, { withFileTypes: true })\<close>: the entries, each with its node.\<close>

definition fs_readdir :: "path \<Rightarrow> world \<Rightarrow> errno + (string \<times> node) list" where
  "fs_readdir p w =
     (case lookup (rootdir w) (segs p) of
        Inl e \<Rightarrow> Inl e
      | Inr (File c t) \<Rightarrow> Inl ENOTDIR
      | Inr (Dir es) \<Rightarrow> Inr es)"

section \<open>The store: \<^verbatim>\<open>class S3StoreMock\<close> of \<^verbatim>\<open>src/index.mjs\<close>\<close>

text \<open>
  An operation takes the world and returns its result, an error or a value, with the
  world it leaves: a call that fails half-way keeps what it has already written. The
  arguments have the types that \<^verbatim>\<open>index.d.ts\<close> declares: keys, etags and prefixes are
  strings, a body is a string or a \<^verbatim>\<open>Buffer\<close>, and the content type may be left out.
\<close>

datatype error =
    JsError (err_name: string) (err_message: string) (err_Code: "string option")
  | SystemError (err_code: errno)

definition KeyExistsError :: "string \<Rightarrow> error" where
  "KeyExistsError message = JsError ''KeyExistsError'' message None"

definition StaleDataError :: "string \<Rightarrow> error" where
  "StaleDataError message = JsError ''StaleDataError'' message None"

datatype body = Str string | Buf "byte list"

datatype raw_response = Fields json | Body "byte list"

record ResponseWrapper =
  response :: raw_response
  etag :: jsvalue

text \<open>The accessors of \<^verbatim>\<open>GetResponseWrapper\<close>.\<close>

definition asByteArray :: "ResponseWrapper \<Rightarrow> byte list" where
  "asByteArray r = (case response r of Body content \<Rightarrow> content | Fields v \<Rightarrow> [])"

definition asString :: "ResponseWrapper \<Rightarrow> string" where
  "asString r = Buffer_toString (asByteArray r)"

definition asJson :: "ResponseWrapper \<Rightarrow> json option" where
  "asJson r = JSON_parse (asString r)"

record ListObjectResult =
  Key :: string
  LastModified :: nat
  Size :: nat

record store =
  bucket :: string
  basePath :: path

definition MOCK_DIR :: string where
  "MOCK_DIR = ''.s3StoreMock''"

text \<open>The constructor; \<open>cwd\<close> is \<^verbatim>\<open>process.cwd()\<close>.\<close>

definition createS3Store :: "path \<Rightarrow> string \<Rightarrow> string option \<Rightarrow> store" where
  "createS3Store cwd bucket_name mockDir =
     \<lparr>bucket = bucket_name,
      basePath = path_join (path_join cwd (case mockDir of None \<Rightarrow> MOCK_DIR | Some d \<Rightarrow> d)) bucket_name\<rparr>"

definition ensureDir :: "path \<Rightarrow> world \<Rightarrow> errno + world" where
  "ensureDir filePath w = fs_mkdir_recursive (path_dirname filePath) w"

definition getFilePath :: "store \<Rightarrow> string \<Rightarrow> path" where
  "getFilePath st key = path_join (basePath st) key"

definition getMetaPath :: "store \<Rightarrow> string \<Rightarrow> path" where
  "getMetaPath st key = path_join (basePath st) (key @ ''.meta'')"

definition calculateEtag :: "byte list \<Rightarrow> string" where
  "calculateEtag content = [CHR 0x22] @ hex (md5 content) @ [CHR 0x22]"

definition fileExists :: "path \<Rightarrow> world \<Rightarrow> bool" where
  "fileExists filePath w = (case fs_access filePath w of Inr u \<Rightarrow> True | Inl e \<Rightarrow> False)"

text \<open>\<^verbatim>\<open>#readMeta\<close>: the parsed metadata file, \<^verbatim>\<open>null\<close> when reading or parsing throws.\<close>

definition readMeta :: "store \<Rightarrow> string \<Rightarrow> world \<Rightarrow> json" where
  "readMeta st key w =
     (case fs_readFile (getMetaPath st key) w of
        Inl e \<Rightarrow> JNull
      | Inr metaContent \<Rightarrow>
         (case JSON_parse (Buffer_toString metaContent) of
            None \<Rightarrow> JNull
          | Some v \<Rightarrow> v))"

definition writeMeta :: "store \<Rightarrow> string \<Rightarrow> json \<Rightarrow> world \<Rightarrow> (errno + unit) \<times> world" where
  "writeMeta st key meta w =
     (let metaPath = getMetaPath st key in
      case ensureDir metaPath w of
        Inl e \<Rightarrow> (Inl e, w)
      | Inr w1 \<Rightarrow>
         (case fs_writeFile metaPath (Buffer_from (JSON_stringify meta)) w1 of
            Inl e \<Rightarrow> (Inl e, w1)
          | Inr w2 \<Rightarrow> (Inr (), w2)))"

text \<open>The object literal \<^verbatim>\<open>{ etag, contentType }\<close>.\<close>

definition meta_object :: "string \<Rightarrow> string \<Rightarrow> json" where
  "meta_object e contentType = JObject [(''etag'', JString e), (''contentType'', JString contentType)]"

definition to_content :: "body \<Rightarrow> byte list" where
  "to_content b = (case b of Buf x \<Rightarrow> x | Str s \<Rightarrow> Buffer_from s)"

definition default_contentType :: "string option \<Rightarrow> string" where
  "default_contentType contentType = (case contentType of None \<Rightarrow> ''application/json'' | Some c \<Rightarrow> c)"

definition createObject ::
  "store \<Rightarrow> string \<Rightarrow> body \<Rightarrow> string option \<Rightarrow> world \<Rightarrow> (error + ResponseWrapper) \<times> world" where
  "createObject st key b contentType w =
     (let filePath = getFilePath st key in
      if fileExists filePath w then (Inl (KeyExistsError ''cannot overwrite an existing key''), w)
      else
        (case ensureDir filePath w of
           Inl e \<Rightarrow> (Inl (SystemError e), w)
         | Inr w1 \<Rightarrow>
            (let content = to_content b in
             case fs_writeFile filePath content w1 of
               Inl e \<Rightarrow> (Inl (SystemError e), w1)
             | Inr w2 \<Rightarrow>
                (let e = calculateEtag content;
                     m = meta_object e (default_contentType contentType) in
                 case writeMeta st key m w2 of
                   (Inl x, w3) \<Rightarrow> (Inl (SystemError x), w3)
                 | (Inr u, w3) \<Rightarrow> (Inr \<lparr>response = Fields m, etag = Val (JString e)\<rparr>, w3)))))"

text \<open>The guard \<^verbatim>\<open>!meta || meta.etag !== etag\<close> of the three conditional operations.\<close>

definition stale :: "json \<Rightarrow> string \<Rightarrow> bool" where
  "stale meta expected = (\<not> truthy meta \<or> js_prop meta ''etag'' \<noteq> Val (JString expected))"

definition putObjectIfMatch ::
  "store \<Rightarrow> string \<Rightarrow> body \<Rightarrow> string \<Rightarrow> string option \<Rightarrow> world \<Rightarrow> (error + ResponseWrapper) \<times> world" where
  "putObjectIfMatch st key b expected contentType w =
     (let filePath = getFilePath st key;
          meta = readMeta st key w in
      if stale meta expected
      then (Inl (StaleDataError ''object was modified concurrently, reload your object first''), w)
      else
        (case ensureDir filePath w of
           Inl e \<Rightarrow> (Inl (SystemError e), w)
         | Inr w1 \<Rightarrow>
            (let content = to_content b in
             case fs_writeFile filePath content w1 of
               Inl e \<Rightarrow> (Inl (SystemError e), w1)
             | Inr w2 \<Rightarrow>
                (let newEtag = calculateEtag content;
                     m = meta_object newEtag (default_contentType contentType) in
                 case writeMeta st key m w2 of
                   (Inl x, w3) \<Rightarrow> (Inl (SystemError x), w3)
                 | (Inr u, w3) \<Rightarrow> (Inr \<lparr>response = Fields m, etag = Val (JString newEtag)\<rparr>, w3)))))"

definition getObject :: "store \<Rightarrow> string \<Rightarrow> world \<Rightarrow> (error + ResponseWrapper) \<times> world" where
  "getObject st key w =
     (let filePath = getFilePath st key;
          meta = readMeta st key w in
      case fs_readFile filePath w of
        Inr content \<Rightarrow> (Inr \<lparr>response = Body content, etag = js_prop meta ''etag''\<rparr>, w)
      | Inl e \<Rightarrow>
         if e = ENOENT
         then (Inl (JsError ''Error'' ''The specified key does not exist.'' (Some ''NoSuchKey'')), w)
         else (Inl (SystemError e), w))"


definition deleteObject :: "store \<Rightarrow> string \<Rightarrow> world \<Rightarrow> (error + ResponseWrapper) \<times> world" where
  "deleteObject st key w =
     (let filePath = getFilePath st key;
          metaPath = getMetaPath st key in
      case (case fs_unlink filePath w of
              Inr w1 \<Rightarrow> Inr w1
            | Inl e \<Rightarrow> if e \<noteq> ENOENT then Inl e else Inr w) of
        Inl e \<Rightarrow> (Inl (SystemError e), w)
      | Inr w1 \<Rightarrow>
         (case (case fs_unlink metaPath w1 of
                  Inr w2 \<Rightarrow> Inr w2
                | Inl e \<Rightarrow> if e \<noteq> ENOENT then Inl e else Inr w1) of
            Inl e \<Rightarrow> (Inl (SystemError e), w1)
          | Inr w2 \<Rightarrow> (Inr \<lparr>response = Fields (JObject []), etag = Val JNull\<rparr>, w2)))"

definition deleteObjectIfMatch :: "store \<Rightarrow> string \<Rightarrow> string \<Rightarrow> world \<Rightarrow> (error + ResponseWrapper) \<times> world" where
  "deleteObjectIfMatch st key expected w =
     (let meta = readMeta st key w in
      if stale meta expected
      then (Inl (StaleDataError ''object was modified concurrently, cannot proceed with deletion''), w)
      else deleteObject st key w)"

text \<open>
  \<^verbatim>\<open>walk(dir, baseDir)\<close>, on the entries that \<^verbatim>\<open>readdir(dir)\<close> returned. The file system
  does not change during the traversal, so the recursive call reads the entries of the
  subdirectory it was handed and \<^verbatim>\<open>stat(fullPath)\<close> reads the entry itself. The result is
  what the calls push onto \<^verbatim>\<open>results\<close>, in order.
\<close>

fun walk :: "path \<Rightarrow> path \<Rightarrow> (string \<times> node) list \<Rightarrow> ListObjectResult list" where
  "walk dir baseDir [] = []"
| "walk dir baseDir ((name, File c t) # entries) =
     (if \<not> endsWith name ''.meta''
      then [\<lparr>Key = map (\<lambda>x. if x = CHR 0x5C then CHR ''/'' else x)
                      (path_relative baseDir (path_join dir name)),
              LastModified = t, Size = length c\<rparr>]
      else [])
     @ walk dir baseDir entries"
| "walk dir baseDir ((name, Dir sub) # entries) =
     walk (path_join dir name) baseDir sub @ walk dir baseDir entries"

text \<open>\<^verbatim>\<open>list(prefix)\<close>: the batches that the asynchronous iterator yields, or the error it
  throws.\<close>

definition list_objects :: "store \<Rightarrow> string \<Rightarrow> world \<Rightarrow> error + ListObjectResult list list" where
  "list_objects st pfx w =
     (let searchPath = path_join (basePath st) pfx in
      case fs_access searchPath w of
        Inl e \<Rightarrow> Inr []
      | Inr u \<Rightarrow>
         (case fs_readdir searchPath w of
            Inl e \<Rightarrow> Inl (SystemError e)
          | Inr entries \<Rightarrow>
             (let results = walk searchPath (basePath st) entries in
              if length results > 0 then Inr [results] else Inr [])))"

subsection \<open>A store and some worlds to run it on\<close>

definition ex_store :: store where
  "ex_store = createS3Store (Path [''home''] False) ''bkt'' None"

definition ex_empty :: world where
  "ex_empty = \<lparr>rootdir = [], now = 0\<rparr>"

text \<open>The world after \<^verbatim>\<open>createObject('a/b', 'hello', 'text/plain')\<close> in the empty one.\<close>

definition ex_world :: world where
  "ex_world = \<lparr>rootdir =
     [(''home'', Dir [(''.s3StoreMock'', Dir [(''bkt'', Dir [(''a'', Dir
        [(''b'', File (Buffer_from ''hello'') 0),
         (''b.meta'', File (Buffer_from (JSON_stringify
             (meta_object (calculateEtag (Buffer_from ''hello'')) ''text/plain''))) 0)])])])])],
     now = 0\<rparr>"

text \<open>The world after \<^verbatim>\<open>createObject('k.meta', '{"etag":"v1","contentType":"text/plain"}')\<close>
  in the empty one: the data file of the key \<^verbatim>\<open>k.meta\<close> is where the key \<^verbatim>\<open>k\<close> keeps its
  metadata, and \<^verbatim>\<open>k\<close> has no data file.\<close>

definition ex_sidecar :: world where
  "ex_sidecar = \<lparr>rootdir =
     [(''home'', Dir [(''.s3StoreMock'', Dir [(''bkt'', Dir
        [(''k.meta'', File (Buffer_from (JSON_stringify (meta_object ''v1'' ''text/plain''))) 0),
         (''k.meta.meta'', File (Buffer_from (JSON_stringify
             (meta_object (calculateEtag (Buffer_from (JSON_stringify (meta_object ''v1'' ''text/plain''))))
                ''application/json''))) 0)])])])],
     now = 0\<rparr>"

text \<open>The world after \<^verbatim>\<open>deleteObject('a/b.meta')\<close> in \<open>ex_world\<close>: the data file of the
  key \<^verbatim>\<open>a/b.meta\<close> was the metadata of \<^verbatim>\<open>a/b\<close>, which is left with its data only.\<close>

definition ex_nometa :: world where
  "ex_nometa = \<lparr>rootdir =
     [(''home'', Dir [(''.s3StoreMock'', Dir [(''bkt'', Dir [(''a'', Dir
        [(''b'', File (Buffer_from ''hello'') 0)])])])])],
     now = 0\<rparr>"

subsection \<open>Auxiliary notions of the proofs\<close>

text \<open>How \<open>parse_items\<close> reads back a character that \<open>quote_char\<close> wrote.\<close>

definition item_of :: "char \<Rightarrow> item" where
  "item_of c = (if (of_char c :: nat) < 0x20 \<and> c \<notin> {CHR 0x08, CHR 0x09, CHR 0x0A, CHR 0x0C, CHR 0x0D}
                then Esc (of_char c) else Raw c)"

text \<open>The directory part of a key and its last segment, as \<open>path_join\<close> sees them.\<close>

definition key_dir :: "store \<Rightarrow> string \<Rightarrow> string list" where
  "key_dir st key = foldl norm_step (segs (basePath st)) (butlast (split_slash key))"

definition key_last :: "string \<Rightarrow> string" where
  "key_last key = last (split_slash key)"




text \<open>Directories as a file system has them: in a directory no two entries of one name,
  and every name a single segment other than \<^verbatim>\<open>.\<close> and \<^verbatim>\<open>..\<close>.\<close>

definition plain_name :: "string \<Rightarrow> bool" where
  "plain_name n = (n \<noteq> [] \<and> n \<noteq> ''.'' \<and> n \<noteq> ''..'' \<and> CHR ''/'' \<notin> set n)"

fun wf_entries :: "(string \<times> node) list \<Rightarrow> bool" where
  "wf_entries [] = True"
| "wf_entries ((n, File c t) # es) = (plain_name n \<and> n \<notin> fst ` set es \<and> wf_entries es)"
| "wf_entries ((n, Dir sub) # es) = (plain_name n \<and> n \<notin> fst ` set es \<and> wf_entries sub \<and> wf_entries es)"

text \<open>The paths, below a directory, of the regular files that \<open>walk\<close> reports.\<close>

fun file_paths :: "(string \<times> node) list \<Rightarrow> string list list" where
  "file_paths [] = []"
| "file_paths ((n, File c t) # es) = (if \<not> endsWith n ''.meta'' then [[n]] else []) @ file_paths es"
| "file_paths ((n, Dir sub) # es) = map ((#) n) (file_paths sub) @ file_paths es"

text \<open>The \<open>Key\<close> that \<open>walk\<close> gives the file at the segments \<open>p\<close>.\<close>

definition entry_key :: "path \<Rightarrow> string list \<Rightarrow> string" where
  "entry_key baseDir p =
     map (\<lambda>x. if x = CHR 0x5C then CHR ''/'' else x) (path_relative baseDir (Path p False))"

subsection \<open>Two contents of 128 bytes with one MD5 digest\<close>

text \<open>The pair that Wang and Yu published in 2005 (\<^emph>\<open>How to break MD5 and other hash
  functions\<close>); the two differ in six bytes.\<close>

definition collision_a :: "byte list" where
  "collision_a = [
     0xd1, 0x31, 0xdd, 0x02, 0xc5, 0xe6, 0xee, 0xc4, 0x69, 0x3d, 0x9a, 0x06, 0x98, 0xaf, 0xf9, 0x5c,
     0x2f, 0xca, 0xb5, 0x87, 0x12, 0x46, 0x7e, 0xab, 0x40, 0x04, 0x58, 0x3e, 0xb8, 0xfb, 0x7f, 0x89,
     0x55, 0xad, 0x34, 0x06, 0x09, 0xf4, 0xb3, 0x02, 0x83, 0xe4, 0x88, 0x83, 0x25, 0x71, 0x41, 0x5a,
     0x08, 0x51, 0x25, 0xe8, 0xf7, 0xcd, 0xc9, 0x9f, 0xd9, 0x1d, 0xbd, 0xf2, 0x80, 0x37, 0x3c, 0x5b,
     0xd8, 0x82, 0x3e, 0x31, 0x56, 0x34, 0x8f, 0x5b, 0xae, 0x6d, 0xac, 0xd4, 0x36, 0xc9, 0x19, 0xc6,
     0xdd, 0x53, 0xe2, 0xb4, 0x87, 0xda, 0x03, 0xfd, 0x02, 0x39, 0x63, 0x06, 0xd2, 0x48, 0xcd, 0xa0,
     0xe9, 0x9f, 0x33, 0x42, 0x0f, 0x57, 0x7e, 0xe8, 0xce, 0x54, 0xb6, 0x70, 0x80, 0xa8, 0x0d, 0x1e,
     0xc6, 0x98, 0x21, 0xbc, 0xb6, 0xa8, 0x83, 0x93, 0x96, 0xf9, 0x65, 0x2b, 0x6f, 0xf7, 0x2a, 0x70]"

definition collision_b :: "byte list" where
  "collision_b = [
     0xd1, 0x31, 0xdd, 0x02, 0xc5, 0xe6, 0xee, 0xc4, 0x69, 0x3d, 0x9a, 0x06, 0x98, 0xaf, 0xf9, 0x5c,
     0x2f, 0xca, 0xb5, 0x07, 0x12, 0x46, 0x7e, 0xab, 0x40, 0x04, 0x58, 0x3e, 0xb8, 0xfb, 0x7f, 0x89,
     0x55, 0xad, 0x34, 0x06, 0x09, 0xf4, 0xb3, 0x02, 0x83, 0xe4, 0x88, 0x83, 0x25, 0xf1, 0x41, 0x5a,
     0x08, 0x51, 0x25, 0xe8, 0xf7, 0xcd, 0xc9, 0x9f, 0xd9, 0x1d, 0xbd, 0x72, 0x80, 0x37, 0x3c, 0x5b,
     0xd8, 0x82, 0x3e, 0x31, 0x56, 0x34, 0x8f, 0x5b, 0xae, 0x6d, 0xac, 0xd4, 0x36, 0xc9, 0x19, 0xc6,
     0xdd, 0x53, 0xe2, 0x34, 0x87, 0xda, 0x03, 0xfd, 0x02, 0x39, 0x63, 0x06, 0xd2, 0x48, 0xcd, 0xa0,
     0xe9, 0x9f, 0x33, 0x42, 0x0f, 0x57, 0x7e, 0xe8, 0xce, 0x54, 0xb6, 0x70, 0x80, 0x28, 0x0d, 0x1e,
     0xc6, 0x98, 0x21, 0xbc, 0xb6, 0xa8, 0x83, 0x93, 0x96, 0xf9, 0x65, 0xab, 0x6f, 0xf7, 0x2a, 0x70]"

section \<open>Lemmas about the platform\<close>

subsection \<open>Buffers\<close>

lemma Buffer_toString_from: "Buffer_toString (Buffer_from s) = s"
proof -
  have "char_of (unat (of_nat (of_char c) :: byte)) = c" for c :: char
  proof -
    have "(of_char c :: nat) < 256" by simp
    then have "unat (of_nat (of_char c) :: byte) = of_char c"
      by (simp add: unat_of_nat)
    then show ?thesis by simp
  qed
  then show ?thesis
    by (simp add: Buffer_toString_def Buffer_from_def comp_def)
qed

subsection \<open>The digest\<close>

lemma length_le32_bytes: "length (le32_bytes w) = 4"
  by (simp add: le32_bytes_def)

lemma length_md5: "length (md5 m) = 16"
  by (simp add: md5_def length_le32_bytes split: prod.splits)

lemma hex_digit_range: "n < 16 \<Longrightarrow> hex_digit n \<in> set ''0123456789abcdef''"
proof -
  assume "n < 16"
  then have "n \<in> set [0..<16]" by simp
  then show ?thesis
    unfolding hex_digit_def by (simp add: upt_rec) (elim disjE; simp)
qed

lemma length_hex: "length (hex bs) = 2 * length bs"
  by (induction bs) (simp_all add: hex_def)

lemma set_hex: "set (hex bs) \<subseteq> set ''0123456789abcdef''"
proof -
  have "unat b div 16 < 16" for b :: byte
  proof -
    have "unat b < 2 ^ LENGTH(8)" by (rule unsigned_less)
    then show ?thesis by simp
  qed
  then have "hex_digit (unat b div 16) \<in> set ''0123456789abcdef''" for b :: byte
    by (rule hex_digit_range)
  moreover have "hex_digit (unat b mod 16) \<in> set ''0123456789abcdef''" for b :: byte
    by (rule hex_digit_range) simp
  ultimately show ?thesis
    unfolding hex_def by (induction bs) auto
qed

subsection \<open>Writing a metadata record and parsing it back\<close>

lemma hex_val_hex_digit: "n < 16 \<Longrightarrow> hex_val (hex_digit n) = Some n"
proof -
  assume "n < 16"
  then have "n \<in> set [0..<16]" by simp
  then show ?thesis
    unfolding hex_digit_def hex_val_def
    by (simp add: upt_rec) (elim disjE; simp)
qed

lemma hex4_control: "n < 32 \<Longrightarrow> hex4 CHR ''0'' CHR ''0'' (hex_digit (n div 16)) (hex_digit (n mod 16)) = Some n"
proof -
  assume n: "n < 32"
  have z: "hex_val CHR ''0'' = Some 0" by (simp add: hex_val_def)
  have a: "hex_val (hex_digit (n div 16)) = Some (n div 16)"
    using n by (intro hex_val_hex_digit) simp
  have b: "hex_val (hex_digit (n mod 16)) = Some (n mod 16)"
    by (intro hex_val_hex_digit) simp
  show ?thesis by (simp add: hex4_def z a b)
qed

lemma parse_items_quote_char:
  "parse_items (quote_char c @ s) = map_option (\<lambda>(is, rest). (item_of c # is, rest)) (parse_items s)"
proof -
  have lt: "(of_char c :: nat) < 32 \<Longrightarrow>
      hex4 CHR ''0'' CHR ''0'' (hex_digit (of_char c div 16)) (hex_digit (of_char c mod 16)) = Some (of_char c)"
    by (rule hex4_control)
  show ?thesis
    by (auto simp: quote_char_def item_of_def lt)
qed

lemma parse_items_quoted:
  "parse_items (quote_chars s @ CHR 0x22 # rest) = Some (map item_of s, rest)"
  unfolding quote_chars_def
  by (induction s) (simp_all add: parse_items_quote_char)

lemma encode_items_Esc: "\<not> high_surrogate n \<Longrightarrow> encode_items (Esc n # is) = utf8 n @ encode_items is"
  by (cases "is" rule: encode_items.cases) simp_all

lemma encode_items_item_of: "encode_items (map item_of s) = s"
proof (induction s)
  case Nil
  then show ?case by simp
next
  case (Cons c s)
  show ?case
  proof (cases "item_of c")
    case (Raw x)
    then have "x = c" by (auto simp: item_of_def split: if_splits)
    with Raw Cons show ?thesis by simp
  next
    case (Esc n)
    then have n: "n = of_char c" "n < 32" by (auto simp: item_of_def split: if_splits)
    then have "\<not> high_surrogate n" by (simp add: high_surrogate_def)
    moreover have "utf8 n = [c]" using n by (simp add: utf8_def)
    ultimately show ?thesis using Esc Cons by (simp add: encode_items_Esc)
  qed
qed

lemma parse_string_quoted:
  "parse_string (quote_chars s @ CHR 0x22 # rest) = Some (s, rest)"
  by (simp add: parse_string_def parse_items_quoted encode_items_item_of)

lemma parse_members_last:
  "parse_members (Suc n) (CHR 0x22 # quote_chars k @ CHR 0x22 # CHR '':'' # CHR 0x22 # quote_chars v @
       CHR 0x22 # CHR ''}'' # r) = Some ([(k, JString v)], r)"
  by (simp add: parse_string_quoted is_ws_def)

lemma parse_members_next:
  "parse_members (Suc n) (CHR 0x22 # quote_chars k @ CHR 0x22 # CHR '':'' # CHR 0x22 # quote_chars v @
       CHR 0x22 # CHR '','' # CHR 0x22 # r)
   = map_option (\<lambda>(kvs, rest). ((k, JString v) # kvs, rest)) (parse_members n (CHR 0x22 # r))"
  by (simp add: parse_string_quoted is_ws_def)

lemma parse_value_object:
  "parse_value (Suc n) (CHR ''{'' # CHR 0x22 # r)
   = map_option (\<lambda>(kvs, rest). (JObject kvs, rest)) (parse_members n (CHR 0x22 # r))"
  by (simp add: is_ws_def)

lemma JSON_stringify_meta:
  "JSON_stringify (meta_object e c) =
     CHR ''{'' # CHR 0x22 # quote_chars ''etag'' @ CHR 0x22 # CHR '':'' # CHR 0x22 # quote_chars e @
       CHR 0x22 # CHR '','' # CHR 0x22 # quote_chars ''contentType'' @ CHR 0x22 # CHR '':'' # CHR 0x22 #
       quote_chars c @ CHR 0x22 # CHR ''}'' # []"
  by (simp add: meta_object_def QuoteJSONString_def)

lemma JSON_parse_stringify_meta:
  "JSON_parse (JSON_stringify (meta_object e c)) = Some (meta_object e c)"
proof -
  define r where "r = quote_chars ''etag'' @ CHR 0x22 # CHR '':'' # CHR 0x22 # quote_chars e @
       CHR 0x22 # CHR '','' # CHR 0x22 # quote_chars ''contentType'' @ CHR 0x22 # CHR '':'' # CHR 0x22 #
       quote_chars c @ CHR 0x22 # CHR ''}'' # []"
  have s: "JSON_stringify (meta_object e c) = CHR ''{'' # CHR 0x22 # r"
    unfolding r_def by (rule JSON_stringify_meta)
  have "length r \<noteq> 0" by (simp add: r_def)
  then obtain m where m: "length r = Suc m" by (cases "length r") auto
  have pm: "\<And>n. parse_members (Suc (Suc n)) (CHR 0x22 # r)
            = Some ([(''etag'', JString e), (''contentType'', JString c)], [])"
    unfolding r_def by (simp only: parse_members_next parse_members_last option.map prod.case)
  have "parse_value (Suc (Suc (Suc (Suc m)))) (CHR ''{'' # CHR 0x22 # r) = Some (meta_object e c, [])"
    by (simp only: parse_value_object pm) (simp add: meta_object_def)
  moreover have "skip_ws (CHR ''{'' # CHR 0x22 # r) = CHR ''{'' # CHR 0x22 # r"
    by (simp add: is_ws_def)
  moreover have "Suc (length (CHR ''{'' # CHR 0x22 # r)) = Suc (Suc (Suc (Suc m)))"
    by (simp add: m)
  ultimately have "parse_value (Suc (length (CHR ''{'' # CHR 0x22 # r))) (skip_ws (CHR ''{'' # CHR 0x22 # r))
      = Some (meta_object e c, [])"
    by (simp only:)
  then have pv: "parse_value (Suc (length (JSON_stringify (meta_object e c))))
        (skip_ws (JSON_stringify (meta_object e c))) = Some (meta_object e c, [])"
    by (simp only: s)
  show ?thesis
    unfolding JSON_parse_def pv by simp
qed

lemma js_prop_meta_object: "js_prop (meta_object e c) ''etag'' = Val (JString e)"
  by (simp add: js_prop_def meta_object_def)

lemma truthy_meta_object: "truthy (meta_object e c)"
  by (simp add: truthy_def meta_object_def)

text \<open>A falsy value has no \<^verbatim>\<open>etag\<close>, so the guard is the comparison alone.\<close>

lemma stale_iff: "stale m e = (js_prop m ''etag'' \<noteq> Val (JString e))"
  by (cases m) (auto simp: stale_def truthy_def js_prop_def)

lemma stale_JNull: "stale JNull e"
  by (simp add: stale_def truthy_def)

subsection \<open>The bound of the parser\<close>

text \<open>Every parser consumes input, so the bound that \<open>JSON_parse\<close> starts with is never
  used up: every larger one gives the same result.\<close>

lemma skip_ws_length: "length (skip_ws s) \<le> length s"
  by (induction s) auto

lemma parse_items_length: "parse_items s = Some (is, r) \<Longrightarrow> length r < length s"
proof (induction s arbitrary: "is" r rule: parse_items.induct)
  case 1
  then show ?case by simp
next
  case (2 c cs)
  show ?case
  proof (cases "c = CHR 0x22")
    case True
    with "2.prems" show ?thesis by simp
  next
    case nq: False
    show ?thesis
    proof (cases "c = CHR 0x5C")
      case False
      with nq "2.prems" "2.IH"(3) show ?thesis
        by (fastforce split: if_splits)
    next
      case True
      with nq "2.prems" obtain e r0 where cs: "cs = e # r0" by (cases cs) auto
      show ?thesis
      proof (cases "e = CHR ''u''")
        case u: True
        with nq True cs "2.prems" obtain h1 h2 h3 h4 r' where r0: "r0 = h1 # h2 # h3 # h4 # r'"
          by (auto split: list.splits)
        with nq True cs u "2.prems" obtain n is' where
          "hex4 h1 h2 h3 h4 = Some n" "parse_items r' = Some (is', r)"
          by (auto split: option.splits)
        with "2.IH"(1) [OF nq True cs u r0] have "length r < length r'" by blast
        with cs r0 show ?thesis by simp
      next
        case nu: False
        with nq True cs "2.prems" obtain x is' where
          x: "(if e = CHR 0x22 then Some (CHR 0x22)
                     else if e = CHR 0x5C then Some (CHR 0x5C)
                     else if e = CHR ''/'' then Some (CHR ''/'')
                     else if e = CHR ''b'' then Some (CHR 0x08)
                     else if e = CHR ''f'' then Some (CHR 0x0C)
                     else if e = CHR ''n'' then Some (CHR 0x0A)
                     else if e = CHR ''r'' then Some (CHR 0x0D)
                     else if e = CHR ''t'' then Some (CHR 0x09)
                     else None) = Some x" and p: "parse_items r0 = Some (is', r)"
          by (auto split: option.splits)
        from "2.IH"(2) [OF nq True cs nu x p] cs show ?thesis by simp
      qed
    qed
  qed
qed

lemma parse_string_length: "parse_string s = Some (x, r) \<Longrightarrow> length r < length s"
  by (auto simp: parse_string_def dest: parse_items_length)

lemma parse_digits_length: "parse_digits s = Some (ds, r) \<Longrightarrow> length r < length s"
proof -
  assume "parse_digits s = Some (ds, r)"
  then have ne: "takeWhile is_digit s \<noteq> []" and r: "r = dropWhile is_digit s"
    by (auto simp: parse_digits_def split: if_splits)
  have "length (takeWhile is_digit s) + length (dropWhile is_digit s) = length s"
    by (metis length_append takeWhile_dropWhile_id)
  with ne r show ?thesis by (cases "takeWhile is_digit s") auto
qed

lemma parse_int_part_length: "parse_int_part s = Some (x, r) \<Longrightarrow> length r < length s"
  by (auto simp: parse_int_part_def split: list.splits if_splits dest: parse_digits_length)

lemma parse_frac_length: "parse_frac s = Some (x, r) \<Longrightarrow> length r \<le> length s"
  by (auto simp: parse_frac_def split: list.splits if_splits dest!: parse_digits_length)

lemma parse_exp_length: "parse_exp s = Some (x, r) \<Longrightarrow> length r \<le> length s"
  by (auto simp: parse_exp_def split: list.splits if_splits dest!: parse_digits_length)

lemma parse_number_length: "parse_number s = Some (x, r) \<Longrightarrow> length r < length s"
  by (auto simp: parse_number_def Let_def split: list.splits if_splits option.splits prod.splits
      dest!: parse_int_part_length parse_frac_length parse_exp_length)

lemma strip_prefix_length: "strip_prefix p s = Some r \<Longrightarrow> length r + length p = length s"
  by (induction p s rule: strip_prefix.induct) (auto split: if_splits)


lemma parse_lengths:
  "(parse_value n s = Some (v, r) \<longrightarrow> length r < length s)
   \<and> (parse_elements n s = Some (vs, r) \<longrightarrow> length r < length s)
   \<and> (parse_members n s = Some (kvs, r) \<longrightarrow> length r < length s)"
proof (induction n arbitrary: s v vs kvs r)
  case 0
  then show ?case by simp
next
  case (Suc n)
  have ihe: "length r < length s" if "parse_elements n s = Some (vs, r)" for s vs r
    using that Suc by blast
  have ihm: "length r < length s" if "parse_members n s = Some (kvs, r)" for s kvs r
    using that Suc by blast
  have pv: "length r < length s" if "parse_value (Suc n) s = Some (v, r)" for s v r
  proof -
    from that obtain c t where s: "s = c # t" by (cases s) auto
    consider (str) "c = CHR 0x22" | (arr) "c \<noteq> CHR 0x22" "c = CHR ''[''"
      | (obj) "c \<noteq> CHR 0x22" "c \<noteq> CHR ''[''" "c = CHR ''{''"
      | (lit) "c \<noteq> CHR 0x22" "c \<noteq> CHR ''[''" "c \<noteq> CHR ''{''" by blast
    then show ?thesis
    proof cases
      case str
      with that s show ?thesis by (auto dest: parse_string_length)
    next
      case arr
      with that s obtain d t' where d: "skip_ws t = d # t'"
        by (cases "skip_ws t") auto
      have "length (d # t') \<le> length t" using skip_ws_length [of t] d by simp
      moreover have "length r < length (d # t')"
        using that s arr d by (auto split: if_splits dest: ihe)
      ultimately show ?thesis using s by simp
    next
      case obj
      with that s obtain d t' where d: "skip_ws t = d # t'"
        by (cases "skip_ws t") auto
      have "length (d # t') \<le> length t" using skip_ws_length [of t] d by simp
      moreover have "length r < length (d # t')"
        using that s obj d by (auto split: if_splits dest: ihm)
      ultimately show ?thesis using s by simp
    next
      case lit
      with that s have "(case strip_prefix ''null'' (c # t) of
            Some rest \<Rightarrow> Some (JNull, rest)
          | None \<Rightarrow> (case strip_prefix ''true'' (c # t) of
            Some rest \<Rightarrow> Some (JBool True, rest)
          | None \<Rightarrow> (case strip_prefix ''false'' (c # t) of
            Some rest \<Rightarrow> Some (JBool False, rest)
          | None \<Rightarrow> map_option (\<lambda>(x, rest). (JNumber x, rest)) (parse_number (c # t))))) = Some (v, r)"
        by (simp del: strip_prefix.simps)
      then show ?thesis
        unfolding s
        by (auto simp del: strip_prefix.simps split: option.splits
            dest!: strip_prefix_length parse_number_length)
    qed
  qed
  have pe: "length r < length s" if "parse_elements (Suc n) s = Some (vs, r)" for s vs r
  proof -
    from that obtain v r1 where v: "parse_value (Suc n) s = Some (v, r1)"
      by (auto split: option.splits)
    from pv [OF v] have l1: "length r1 < length s" .
    from that v obtain d r' where d: "skip_ws r1 = d # r'"
      by (cases "skip_ws r1") auto
    have l2: "length (d # r') \<le> length r1" using skip_ws_length [of r1] d by simp
    show ?thesis
    proof (cases "d = CHR '']''")
      case True
      with that v d have "r = r'" by auto
      with l1 l2 show ?thesis by simp
    next
      case False
      with that v d obtain vs' where "parse_elements n (skip_ws r') = Some (vs', r)"
        by (auto split: if_splits)
      then have "length r < length (skip_ws r')" by (rule ihe)
      with skip_ws_length [of r'] l1 l2 show ?thesis by simp
    qed
  qed
  have pm: "length r < length s" if "parse_members (Suc n) s = Some (kvs, r)" for s kvs r
  proof -
    from that obtain r0 where s: "s = CHR 0x22 # r0"
      by (cases s) (auto split: if_splits)
    from that s obtain k r1 where k: "parse_string r0 = Some (k, r1)"
      by (auto split: option.splits)
    from that s k obtain r2 where c: "skip_ws r1 = CHR '':'' # r2"
      by (cases "skip_ws r1") (auto split: if_splits)
    from that s k c obtain v r3 where v: "parse_value (Suc n) (skip_ws r2) = Some (v, r3)"
      by (auto split: option.splits)
    from that s k c v obtain d r4 where d: "skip_ws r3 = d # r4"
      by (cases "skip_ws r3") auto
    have l: "length r4 < length s"
      using parse_string_length [OF k] skip_ws_length [of r1] skip_ws_length [of r2]
        skip_ws_length [of r3] pv [OF v] s c d by simp
    show ?thesis
    proof (cases "d = CHR ''}''")
      case True
      with that s k c v d have "r = r4" by auto
      with l show ?thesis by simp
    next
      case False
      with that s k c v d obtain kvs' where "parse_members n (skip_ws r4) = Some (kvs', r)"
        by (auto split: if_splits)
      then have "length r < length (skip_ws r4)" by (rule ihm)
      with skip_ws_length [of r4] l show ?thesis by simp
    qed
  qed
  from pv pe pm show ?case by blast
qed


lemma parse_value_length: "parse_value n s = Some (v, r) \<Longrightarrow> length r < length s"
  using parse_lengths [of n s v r] by simp

lemma parse_fuel:
  "length s < n \<Longrightarrow> length s < m \<Longrightarrow>
     parse_value n s = parse_value m s
     \<and> parse_elements n s = parse_elements m s
     \<and> parse_members n s = parse_members m s"
proof (induction n arbitrary: m s)
  case 0
  then show ?case by simp
next
  case (Suc n)
  from Suc.prems obtain m' where m: "m = Suc m'" by (cases m) auto
  have ihe: "parse_elements n x = parse_elements m' x" if "length x < n" "length x < m'" for x
    using that Suc.IH [of x m'] by simp
  have ihm: "parse_members n x = parse_members m' x" if "length x < n" "length x < m'" for x
    using that Suc.IH [of x m'] by simp
  have pv: "parse_value (Suc n) x = parse_value (Suc m') x" if "length x \<le> length s" for x
  proof (cases x)
    case Nil
    then show ?thesis by simp
  next
    case (Cons c t)
    have lt: "length t < n" "length t < m'"
      using that Cons Suc.prems m by simp_all
    have e: "parse_elements n (skip_ws t) = parse_elements m' (skip_ws t)"
      using skip_ws_length [of t] lt by (intro ihe) simp_all
    have mm: "parse_members n (skip_ws t) = parse_members m' (skip_ws t)"
      using skip_ws_length [of t] lt by (intro ihm) simp_all
    show ?thesis
    proof (cases "skip_ws t")
      case Nil
      then show ?thesis unfolding Cons by (simp del: strip_prefix.simps)
    next
      case sk: (Cons d r')
      with e mm show ?thesis unfolding Cons by (simp del: strip_prefix.simps)
    qed
  qed
  have pvs: "parse_value (Suc n) s = parse_value (Suc m') s"
    by (rule pv) simp
  have pe: "parse_elements (Suc n) s = parse_elements (Suc m') s"
  proof (cases "parse_value (Suc m') s")
    case None
    then show ?thesis by (simp only: parse_elements.simps pvs option.case)
  next
    case (Some a)
    obtain v r where a: "a = (v, r)" by (cases a)
    from parse_value_length [of "Suc m'" s v r] Some a have lr: "length r < length s" by simp
    show ?thesis
    proof (cases "skip_ws r")
      case Nil
      with Some a show ?thesis
        by (simp only: parse_elements.simps pvs option.case prod.case list.case)
    next
      case (Cons d r')
      have "length (skip_ws r') < n" "length (skip_ws r') < m'"
        using skip_ws_length [of r] skip_ws_length [of r'] Cons lr Suc.prems m by simp_all
      then have "parse_elements n (skip_ws r') = parse_elements m' (skip_ws r')" by (rule ihe)
      with Some a Cons show ?thesis
        by (simp only: parse_elements.simps pvs option.case prod.case list.case)
    qed
  qed
  have pm: "parse_members (Suc n) s = parse_members (Suc m') s"
  proof (cases s)
    case Nil
    then show ?thesis by simp
  next
    case s: (Cons q r0)
    show ?thesis
    proof (cases "parse_string r0")
      case None
      with s show ?thesis by simp
    next
      case (Some a)
      obtain k r1 where a: "a = (k, r1)" by (cases a)
      from parse_string_length [of r0 k r1] Some a have l1: "length r1 < length r0" by simp
      show ?thesis
      proof (cases "skip_ws r1")
        case Nil
        with s Some a show ?thesis by simp
      next
        case c: (Cons c r2)
        have l2: "length (skip_ws r2) < length r0"
          using skip_ws_length [of r1] skip_ws_length [of r2] c l1 by simp
        then have v: "parse_value (Suc n) (skip_ws r2) = parse_value (Suc m') (skip_ws r2)"
          using s by (intro pv) simp
        show ?thesis
        proof (cases "parse_value (Suc m') (skip_ws r2)")
          case None
          with s Some a c v show ?thesis
            by (simp only: parse_members.simps option.case prod.case list.case)
        next
          case v2: (Some b)
          obtain x r3 where b: "b = (x, r3)" by (cases b)
          from parse_value_length [of "Suc m'" "skip_ws r2" x r3] v2 b
          have l3: "length r3 < length (skip_ws r2)" by simp
          show ?thesis
          proof (cases "skip_ws r3")
            case Nil
            with s Some a c v v2 b show ?thesis
              by (simp only: parse_members.simps option.case prod.case list.case)
          next
            case d: (Cons d r4)
            have "length (skip_ws r4) < n" "length (skip_ws r4) < m'"
              using skip_ws_length [of r3] skip_ws_length [of r4] d l3 l2 s Suc.prems m by simp_all
            then have "parse_members n (skip_ws r4) = parse_members m' (skip_ws r4)" by (rule ihm)
            with s Some a c v v2 b d show ?thesis
              by (simp only: parse_members.simps option.case prod.case list.case)
          qed
        qed
      qed
    qed
  qed
  from pvs pe pm m show ?case by simp
qed

text \<open>Any bound above the length of the text gives the result of \<open>JSON_parse\<close>.\<close>

lemma JSON_parse_fuel:
  "length s < n \<Longrightarrow>
     JSON_parse s = (case parse_value n (skip_ws s) of
        None \<Rightarrow> None
      | Some (v, rest) \<Rightarrow> if skip_ws rest = [] then Some v else None)"
proof -
  assume "length s < n"
  with skip_ws_length [of s] have "parse_value n (skip_ws s) = parse_value (Suc (length s)) (skip_ws s)"
    using parse_fuel [of "skip_ws s" n "Suc (length s)"] by simp
  then show ?thesis by (simp add: JSON_parse_def)
qed

subsection \<open>Paths\<close>

lemma split_slash_ne: "split_slash k \<noteq> []"
  by (induction k) (auto split: list.splits)

lemma split_slash_noslash: "CHR ''/'' \<notin> set m \<Longrightarrow> split_slash m = [m]"
  by (induction m) auto

lemma split_slash_append:
  "CHR ''/'' \<notin> set m \<Longrightarrow> split_slash (k @ m) = butlast (split_slash k) @ [last (split_slash k) @ m]"
proof (induction k)
  case Nil
  then show ?case by (simp add: split_slash_noslash)
next
  case (Cons c k)
  then show ?case
    using split_slash_ne [of k] by (cases "split_slash k") (auto split: list.splits)
qed


lemma norm_step_meta: "norm_step stack (s @ ''.meta'') = stack @ [s @ ''.meta'']"
proof -
  have "length (s @ ''.meta'') \<ge> 5" by simp
  then have "s @ ''.meta'' \<noteq> []" "s @ ''.meta'' \<noteq> ''.''" "s @ ''.meta'' \<noteq> ''..''"
    by (auto simp del: length_append dest!: arg_cong [where f = length])
  then show ?thesis by (simp add: norm_step_def)
qed

lemma getMetaPath_eq:
  "getMetaPath st key = Path (key_dir st key @ [key_last key @ ''.meta'']) False"
proof -
  have "split_slash (key @ ''.meta'') = butlast (split_slash key) @ [last (split_slash key) @ ''.meta'']"
    by (rule split_slash_append) simp
  then show ?thesis
    by (simp add: getMetaPath_def path_join_def key_dir_def key_last_def norm_step_meta)
qed

lemma getFilePath_segs: "segs (getFilePath st key) = norm_step (key_dir st key) (key_last key)"
proof (cases "key = []")
  case True
  then show ?thesis
    by (simp add: getFilePath_def path_join_def key_dir_def key_last_def norm_step_def)
next
  case False
  have "split_slash key = butlast (split_slash key) @ [last (split_slash key)]"
    using split_slash_ne [of key] by simp
  then have "foldl norm_step (segs (basePath st)) (split_slash key)
      = norm_step (key_dir st key) (key_last key)"
    unfolding key_dir_def key_last_def by (metis foldl_Cons foldl_Nil foldl_append)
  with False show ?thesis
    by (simp add: getFilePath_def path_join_def)
qed


lemma file_meta_segs_neq: "segs (getFilePath st key) \<noteq> segs (getMetaPath st key)"
proof -
  have "norm_step d s \<noteq> d @ [s @ ''.meta'']" for d s
  proof -
    have "length (butlast d) \<noteq> length (d @ [s @ ''.meta''])" by simp
    then have "butlast d \<noteq> d @ [s @ ''.meta'']" by (metis)
    then show ?thesis by (auto simp: norm_step_def)
  qed
  then show ?thesis by (simp add: getFilePath_segs getMetaPath_eq)
qed

subsection \<open>The file system\<close>

lemma lookup_append:
  "lookup es (p @ q) =
     (case lookup es p of
        Inl e \<Rightarrow> Inl e
      | Inr (File c t) \<Rightarrow> if q = [] then Inr (File c t) else Inl ENOTDIR
      | Inr (Dir d) \<Rightarrow> lookup d q)"
proof (induction p arbitrary: es)
  case Nil
  then show ?case by simp
next
  case (Cons s p)
  then show ?case
    by (cases q) (auto split: option.splits node.splits sum.splits)
qed



lemma write_at_lookup_same:
  "write_at es p c t = Inr es' \<Longrightarrow> lookup es' p = Inr (File c t)"
proof (induction p arbitrary: es es')
  case Nil
  then show ?case by simp
next
  case (Cons s p)
  then show ?case
    by (auto simp: update_conv' split: option.splits node.splits sum.splits if_splits)
qed

lemma write_at_lookup_other:
  "write_at es p c t = Inr es' \<Longrightarrow> lookup es q = Inr (File c' t') \<Longrightarrow> q \<noteq> p
     \<Longrightarrow> lookup es' q = Inr (File c' t')"
proof (induction p arbitrary: es es' q)
  case Nil
  then show ?case by simp
next
  case (Cons s p)
  show ?case
  proof (cases q)
    case Nil
    with Cons.prems show ?thesis by simp
  next
    case (Cons s' q')
    with Cons.prems Cons.IH show ?thesis
      by (auto simp: update_conv' split: option.splits node.splits sum.splits if_splits)
  qed
qed



lemma mkdir_p_file_preserved:
  "mkdir_p es p = Inr es' \<Longrightarrow> lookup es q = Inr (File c t) \<Longrightarrow> lookup es' q = Inr (File c t)"
proof (induction p arbitrary: es es' q)
  case Nil
  then show ?case by simp
next
  case (Cons s p)
  show ?case
  proof (cases q)
    case Nil
    with Cons.prems show ?thesis by simp
  next
    case (Cons s' q')
    with Cons.prems Cons.IH show ?thesis
      by (auto simp: update_conv' split: option.splits node.splits sum.splits if_splits)
  qed
qed




subsection \<open>The digest of the two colliding contents\<close>

lemma replicate_numeral_Cons: "replicate (numeral k) x = x # replicate (pred_numeral k) x"
  by (simp add: numeral_eq_Suc)

lemma upt_64: "[0..<64] =
    [0, 1, 2, 3, 4, 5, 6, 7, 8, 9, 10, 11, 12, 13, 14, 15]
    @ [16, 17, 18, 19, 20, 21, 22, 23, 24, 25, 26, 27, 28, 29, 30, 31]
    @ [32, 33, 34, 35, 36, 37, 38, 39, 40, 41, 42, 43, 44, 45, 46, 47]
    @ [48, 49, 50, 51, 52, 53, 54, 55, 56, 57, 58, 59, 60, 61, 62, 63 :: nat]"
  by (simp add: upt_rec)

lemmas md5_eval = md5_block_def md5_step_def rotl32_def md5_K_def md5_s_def upt_64

lemma collision_a_words: "le_words (md5_pad collision_a) =
    [0x02dd31d1, 0xc4eee6c5, 0x069a3d69, 0x5cf9af98, 0x87b5ca2f, 0xab7e4612, 0x3e580440, 0x897ffbb8,
     0x0634ad55, 0x02b3f409, 0x8388e483, 0x5a417125, 0xe8255108, 0x9fc9cdf7, 0xf2bd1dd9, 0x5b3c3780,
     0x313e82d8, 0x5b8f3456, 0xd4ac6dae, 0xc619c936, 0xb4e253dd, 0xfd03da87, 0x06633902, 0xa0cd48d2,
     0x42339fe9, 0xe87e570f, 0x70b654ce, 0x1e0da880, 0xbc2198c6, 0x9383a8b6, 0x2b65f996, 0x702af76f,
     0x00000080, 0x00000000, 0x00000000, 0x00000000, 0x00000000, 0x00000000, 0x00000000, 0x00000000,
     0x00000000, 0x00000000, 0x00000000, 0x00000000, 0x00000000, 0x00000000, 0x00000400, 0x00000000]"
  by (simp add: md5_pad_def collision_a_def le64_bytes_def replicate_numeral_Cons)

lemma collision_b_words: "le_words (md5_pad collision_b) =
    [0x02dd31d1, 0xc4eee6c5, 0x069a3d69, 0x5cf9af98, 0x07b5ca2f, 0xab7e4612, 0x3e580440, 0x897ffbb8,
     0x0634ad55, 0x02b3f409, 0x8388e483, 0x5a41f125, 0xe8255108, 0x9fc9cdf7, 0x72bd1dd9, 0x5b3c3780,
     0x313e82d8, 0x5b8f3456, 0xd4ac6dae, 0xc619c936, 0x34e253dd, 0xfd03da87, 0x06633902, 0xa0cd48d2,
     0x42339fe9, 0xe87e570f, 0x70b654ce, 0x1e0d2880, 0xbc2198c6, 0x9383a8b6, 0xab65f996, 0x702af76f,
     0x00000080, 0x00000000, 0x00000000, 0x00000000, 0x00000000, 0x00000000, 0x00000000, 0x00000000,
     0x00000000, 0x00000000, 0x00000000, 0x00000000, 0x00000000, 0x00000000, 0x00000400, 0x00000000]"
  by (simp add: md5_pad_def collision_b_def le64_bytes_def replicate_numeral_Cons)

lemma collision_a_block1: "md5_block (0x67452301, 0xefcdab89, 0x98badcfe, 0x10325476)
    [0x02dd31d1, 0xc4eee6c5, 0x069a3d69, 0x5cf9af98, 0x87b5ca2f, 0xab7e4612, 0x3e580440, 0x897ffbb8,
     0x0634ad55, 0x02b3f409, 0x8388e483, 0x5a417125, 0xe8255108, 0x9fc9cdf7, 0xf2bd1dd9, 0x5b3c3780] = (0x52589324, 0x3093d7ca, 0x2a06dc54, 0x20c5be06)"
  by (simp add: md5_eval)

lemma collision_a_block2: "md5_block (0x52589324, 0x3093d7ca, 0x2a06dc54, 0x20c5be06)
    [0x313e82d8, 0x5b8f3456, 0xd4ac6dae, 0xc619c936, 0xb4e253dd, 0xfd03da87, 0x06633902, 0xa0cd48d2,
     0x42339fe9, 0xe87e570f, 0x70b654ce, 0x1e0da880, 0xbc2198c6, 0x9383a8b6, 0x2b65f996, 0x702af76f] = (0x8d5e7019, 0x61804e08, 0x715d6b58, 0x6324c015)"
  by (simp add: md5_eval)

lemma collision_b_block1: "md5_block (0x67452301, 0xefcdab89, 0x98badcfe, 0x10325476)
    [0x02dd31d1, 0xc4eee6c5, 0x069a3d69, 0x5cf9af98, 0x07b5ca2f, 0xab7e4612, 0x3e580440, 0x897ffbb8,
     0x0634ad55, 0x02b3f409, 0x8388e483, 0x5a41f125, 0xe8255108, 0x9fc9cdf7, 0x72bd1dd9, 0x5b3c3780] = (0xd2589324, 0xb293d7ca, 0xac06dc54, 0xa2c5be06)"
  by (simp add: md5_eval)

lemma collision_b_block2: "md5_block (0xd2589324, 0xb293d7ca, 0xac06dc54, 0xa2c5be06)
    [0x313e82d8, 0x5b8f3456, 0xd4ac6dae, 0xc619c936, 0x34e253dd, 0xfd03da87, 0x06633902, 0xa0cd48d2,
     0x42339fe9, 0xe87e570f, 0x70b654ce, 0x1e0d2880, 0xbc2198c6, 0x9383a8b6, 0xab65f996, 0x702af76f] = (0x8d5e7019, 0x61804e08, 0x715d6b58, 0x6324c015)"
  by (simp add: md5_eval)

lemma collision_block3: "md5_block (0x8d5e7019, 0x61804e08, 0x715d6b58, 0x6324c015)
    [0x00000080, 0x00000000, 0x00000000, 0x00000000, 0x00000000, 0x00000000, 0x00000000, 0x00000000,
     0x00000000, 0x00000000, 0x00000000, 0x00000000, 0x00000000, 0x00000000, 0x00000400, 0x00000000] = (0x25400579, 0xa2b15f25, 0x22c44b6e, 0xb44ef5ae)"
  by (simp add: md5_eval)

lemma md5_collision_a: "md5_blocks (0x67452301, 0xefcdab89, 0x98badcfe, 0x10325476) (le_words (md5_pad collision_a)) = (0x25400579, 0xa2b15f25, 0x22c44b6e, 0xb44ef5ae)"
  by (simp add: collision_a_words collision_a_block1 collision_a_block2 collision_block3)

lemma md5_collision_b: "md5_blocks (0x67452301, 0xefcdab89, 0x98badcfe, 0x10325476) (le_words (md5_pad collision_b)) = (0x25400579, 0xa2b15f25, 0x22c44b6e, 0xb44ef5ae)"
  by (simp add: collision_b_words collision_b_block1 collision_b_block2 collision_block3)

lemma calculateEtag_empty: "calculateEtag [] = CHR 0x22 # ''d41d8cd98f00b204e9800998ecf8427e'' @ [CHR 0x22]"
proof -
  have p: "le_words (md5_pad []) = [128, 0, 0, 0, 0, 0, 0, 0, 0, 0, 0, 0, 0, 0, 0, 0]"
    by (simp add: md5_pad_def le64_bytes_def replicate_numeral_Cons)
  have b: "md5_block (0x67452301, 0xefcdab89, 0x98badcfe, 0x10325476) [128, 0, 0, 0, 0, 0, 0, 0, 0, 0, 0, 0, 0, 0, 0, 0]
      = (0xd98c1dd4, 0x04b2008f, 0x980980e9, 0x7e42f8ec)"
    by (simp add: md5_eval)
  show ?thesis
    by (simp add: calculateEtag_def md5_def p b le32_bytes_def hex_def hex_digit_def)
qed

section \<open>Lemmas about the store\<close>


lemma lookup_fs_readFile:
  "lookup (rootdir w) (segs p) = Inr (File c t) \<Longrightarrow> \<not> trailing p \<Longrightarrow> fs_readFile p w = Inr c"
  by (simp add: fs_readFile_def)

lemma fs_readFile_fileExists: "fs_readFile p w = Inr c \<Longrightarrow> fileExists p w"
  by (auto simp: fs_readFile_def fileExists_def fs_access_def split: sum.splits node.splits if_splits)

lemma fs_writeFile_Inr:
  "fs_writeFile p c w = Inr w' \<Longrightarrow>
     \<not> trailing p \<and> write_at (rootdir w) (segs p) c (now w) = Inr (rootdir w') \<and> now w' = now w"
  by (auto simp: fs_writeFile_def split: sum.splits node.splits if_splits)

lemma readMeta_written:
  assumes "fs_readFile (getMetaPath st key) w = Inr (Buffer_from (JSON_stringify (meta_object e c)))"
  shows "readMeta st key w = meta_object e c"
  using assms by (simp add: readMeta_def Buffer_toString_from JSON_parse_stringify_meta)


text \<open>What the three writing steps shared by \<open>createObject\<close> and \<open>putObjectIfMatch\<close>
  leave behind when they succeed.\<close>

lemma written_files:
  assumes wf: "fs_writeFile (getFilePath st key) content w1 = Inr w2"
    and wm: "writeMeta st key m w2 = (Inr u, w3)"
  shows "fs_readFile (getFilePath st key) w3 = Inr content"
    and "fs_readFile (getMetaPath st key) w3 = Inr (Buffer_from (JSON_stringify m))"
proof -
  let ?fp = "getFilePath st key" and ?mp = "getMetaPath st key"
  from fs_writeFile_Inr [OF wf] have tr: "\<not> trailing ?fp"
    and w2: "write_at (rootdir w1) (segs ?fp) content (now w1) = Inr (rootdir w2)" by auto
  from write_at_lookup_same [OF w2]
  have l2: "lookup (rootdir w2) (segs ?fp) = Inr (File content (now w1))" .
  from wm obtain w2' where md: "ensureDir ?mp w2 = Inr w2'"
    and wr: "fs_writeFile ?mp (Buffer_from (JSON_stringify m)) w2' = Inr w3"
    by (auto simp: writeMeta_def Let_def split: sum.splits)
  from md have "mkdir_p (rootdir w2) (segs (path_dirname ?mp)) = Inr (rootdir w2')"
    by (auto simp: ensureDir_def fs_mkdir_recursive_def split: sum.splits)
  from mkdir_p_file_preserved [OF this l2]
  have l2': "lookup (rootdir w2') (segs ?fp) = Inr (File content (now w1))" .
  from fs_writeFile_Inr [OF wr] have trm: "\<not> trailing ?mp"
    and w3: "write_at (rootdir w2') (segs ?mp) (Buffer_from (JSON_stringify m)) (now w2') = Inr (rootdir w3)"
    by auto
  from write_at_lookup_other [OF w3 l2' file_meta_segs_neq]
  have "lookup (rootdir w3) (segs ?fp) = Inr (File content (now w1))" .
  with tr show "fs_readFile ?fp w3 = Inr content"
    by (simp add: lookup_fs_readFile)
  from write_at_lookup_same [OF w3] trm
  show "fs_readFile ?mp w3 = Inr (Buffer_from (JSON_stringify m))"
    by (simp add: lookup_fs_readFile)
qed


lemma createObject_Inr:
  assumes "createObject st key b ct w = (Inr r, w')"
  shows "\<exists>w1 w2 u. \<not> fileExists (getFilePath st key) w
           \<and> fs_writeFile (getFilePath st key) (to_content b) w1 = Inr w2
           \<and> writeMeta st key (meta_object (calculateEtag (to_content b)) (default_contentType ct)) w2 = (Inr u, w')
           \<and> r = \<lparr>response = Fields (meta_object (calculateEtag (to_content b)) (default_contentType ct)),
                   etag = Val (JString (calculateEtag (to_content b)))\<rparr>"
  using assms
  by (auto simp: createObject_def Let_def split: if_splits sum.splits prod.splits)

lemma createObject_stored:
  assumes "createObject st key b ct w = (Inr r, w')"
  shows "fs_readFile (getFilePath st key) w' = Inr (to_content b)"
    and "readMeta st key w' = meta_object (calculateEtag (to_content b)) (default_contentType ct)"
    and "etag r = Val (JString (calculateEtag (to_content b)))"
proof -
  from createObject_Inr [OF assms] obtain w1 w2 u where
    wf: "fs_writeFile (getFilePath st key) (to_content b) w1 = Inr w2"
    and wm: "writeMeta st key (meta_object (calculateEtag (to_content b)) (default_contentType ct)) w2 = (Inr u, w')"
    and r: "r = \<lparr>response = Fields (meta_object (calculateEtag (to_content b)) (default_contentType ct)),
                   etag = Val (JString (calculateEtag (to_content b)))\<rparr>"
    by blast
  from written_files(1) [OF wf wm] show "fs_readFile (getFilePath st key) w' = Inr (to_content b)" .
  from written_files(2) [OF wf wm]
  show "readMeta st key w' = meta_object (calculateEtag (to_content b)) (default_contentType ct)"
    by (rule readMeta_written)
  from r show "etag r = Val (JString (calculateEtag (to_content b)))" by simp
qed

subsection \<open>Deleting\<close>













subsection \<open>Listing\<close>

lemma path_join_plain: "plain_name n \<Longrightarrow> path_join d n = Path (segs d @ [n]) False"
proof -
  assume p: "plain_name n"
  then have "split_slash n = [n]"
    by (intro split_slash_noslash) (simp add: plain_name_def)
  moreover from p have "last n \<noteq> CHR ''/''"
    by (metis last_in_set plain_name_def)
  ultimately show ?thesis
    using p by (simp add: path_join_def norm_step_def plain_name_def)
qed

lemma walk_keys:
  "wf_entries es \<Longrightarrow>
     map Key (walk dir baseDir es) = map (\<lambda>p. entry_key baseDir (segs dir @ p)) (file_paths es)"
proof (induction dir baseDir es rule: walk.induct)
  case (1 dir baseDir)
  then show ?case by simp
next
  case (2 dir baseDir name c t entries)
  then show ?case
    by (simp add: path_join_plain entry_key_def path_relative_def)
next
  case (3 dir baseDir name sub entries)
  then show ?case
    by (simp add: path_join_plain comp_def)
qed

lemma walk_Nil: "wf_entries es \<Longrightarrow> (walk dir baseDir es = []) = (file_paths es = [])"
  using walk_keys [of es dir baseDir] by (metis map_is_Nil_conv)

lemma file_paths_hd: "p \<in> set (file_paths es) \<Longrightarrow> p \<noteq> [] \<and> hd p \<in> fst ` set es"
  by (induction es rule: file_paths.induct) (auto split: if_splits)

lemma map_of_not_in: "n \<notin> fst ` set es \<Longrightarrow> map_of es n = None"
  by (simp add: map_of_eq_None_iff)

lemma file_paths_iff:
  "wf_entries es \<Longrightarrow>
     (p \<in> set (file_paths es)) = ((\<exists>c t. lookup es p = Inr (File c t)) \<and> \<not> endsWith (last p) ''.meta'')"
proof (induction es arbitrary: p rule: file_paths.induct)
  case 1
  then show ?case by (cases p) simp_all
next
  case (2 n c t es)
  then have ih: "\<And>q. (q \<in> set (file_paths es)) =
      ((\<exists>c t. lookup es q = Inr (File c t)) \<and> \<not> endsWith (last q) ''.meta'')"
    and none: "map_of es n = None"
    by (simp_all add: map_of_not_in)
  show ?case
  proof (cases p)
    case Nil
    with ih [of "[]"] show ?thesis by simp
  next
    case (Cons s q)
    with ih [of p] none show ?thesis by auto
  qed
next
  case (3 n sub es)
  then have ih: "\<And>q. (q \<in> set (file_paths es)) =
      ((\<exists>c t. lookup es q = Inr (File c t)) \<and> \<not> endsWith (last q) ''.meta'')"
    and ihs: "\<And>q. (q \<in> set (file_paths sub)) =
      ((\<exists>c t. lookup sub q = Inr (File c t)) \<and> \<not> endsWith (last q) ''.meta'')"
    and none: "map_of es n = None"
    by (simp_all add: map_of_not_in)
  show ?case
  proof (cases p)
    case Nil
    with ih [of "[]"] show ?thesis by auto
  next
    case (Cons s q)
    show ?thesis
    proof (cases "s = n")
      case True
      have "q \<noteq> []" if "q \<in> set (file_paths sub)"
        using that file_paths_hd by blast
      moreover have "q \<noteq> []" if "lookup sub q = Inr (File c t)" for c t
        using that by auto
      ultimately show ?thesis
        using Cons True ih [of p] ihs [of q] none by auto
    next
      case False
      with Cons ih [of p] show ?thesis by auto
    qed
  qed
qed

lemma file_paths_distinct: "wf_entries es \<Longrightarrow> distinct (file_paths es)"
proof (induction es rule: file_paths.induct)
  case 1
  then show ?case by simp
next
  case (2 n c t es)
  then show ?case
    using file_paths_hd [of "[n]" es] by auto
next
  case (3 n sub es)
  have "n # q \<notin> set (file_paths es)" if "n \<notin> fst ` set es" for q
    using that file_paths_hd [of "n # q" es] by auto
  with 3 show ?case
    by (auto simp: distinct_map)
qed

lemma drop_common_append: "drop_common xs (xs @ ys) = ([], ys)"
  by (induction xs) simp_all

text \<open>Below the bucket the \<open>Key\<close> is the segments after the root, joined by slashes
  (and with a slash for every backslash).\<close>

lemma entry_key_below:
  "entry_key baseDir (segs baseDir @ p) = map (\<lambda>x. if x = CHR 0x5C then CHR ''/'' else x) (join_with ''/'' p)"
  by (simp add: entry_key_def path_relative_def drop_common_append)

section \<open>The example worlds\<close>

lemma ex_store_eq:
  "ex_store = \<lparr>bucket = ''bkt'', basePath = Path [''home'', ''.s3StoreMock'', ''bkt''] False\<rparr>"
  by (simp add: ex_store_def createS3Store_def MOCK_DIR_def path_join_def norm_step_def)

lemmas ex_paths = ex_store_eq getFilePath_def getMetaPath_def path_join_def norm_step_def path_dirname_def

lemmas ex_fs = fileExists_def fs_access_def fs_readFile_def fs_writeFile_def fs_mkdir_recursive_def
  fs_unlink_def fs_readdir_def ensureDir_def writeMeta_def

lemma ex_create:
  "createObject ex_store ''a/b'' (Str ''hello'') (Some ''text/plain'') ex_empty =
     (Inr \<lparr>response = Fields (meta_object (calculateEtag (Buffer_from ''hello'')) ''text/plain''),
           etag = Val (JString (calculateEtag (Buffer_from ''hello'')))\<rparr>, ex_world)"
  by (simp add: createObject_def Let_def ex_paths ex_fs ex_empty_def ex_world_def to_content_def
      default_contentType_def)

lemma ex_create_sidecar:
  "snd (createObject ex_store ''k.meta'' (Str (JSON_stringify (meta_object ''v1'' ''text/plain''))) None ex_empty)
     = ex_sidecar"
  by (simp add: createObject_def Let_def ex_paths ex_fs ex_empty_def ex_sidecar_def to_content_def
      default_contentType_def)

lemma ex_world_meta:
  "readMeta ex_store ''a/b'' ex_world = meta_object (calculateEtag (Buffer_from ''hello'')) ''text/plain''"
  by (rule readMeta_written) (simp add: ex_paths ex_fs ex_world_def)

lemma ex_world_file: "fileExists (getFilePath ex_store ''a/b'') ex_world"
  by (simp add: ex_paths ex_fs ex_world_def)



lemma calculateEtag_not_stale_etag: "calculateEtag c \<noteq> ''stale-etag''"
  by (simp add: calculateEtag_def)

lemma ex_delete_meta: "snd (deleteObject ex_store ''a/b.meta'' ex_world) = ex_nometa"
  by (simp add: deleteObject_def ex_paths ex_fs ex_world_def ex_nometa_def)

section \<open>The claims\<close>

text \<open>
  C1. For every key, body and expected etag: if the stored metadata record of the key is
  absent, or its etag differs from the expected etag, \<open>putObjectIfMatch\<close> fails with
  the \<open>StaleDataError\<close> and writes nothing: the world, and with it the data file and
  the metadata file of the key, is the one before the call.
\<close>

theorem putObjectIfMatch_stale:
  assumes "readMeta st key w = JNull \<or> js_prop (readMeta st key w) ''etag'' \<noteq> Val (JString expected)"
  shows "putObjectIfMatch st key b expected contentType w =
           (Inl (StaleDataError ''object was modified concurrently, reload your object first''), w)"
proof -
  from assms have "stale (readMeta st key w) expected"
    by (auto simp: stale_iff js_prop_def)
  then show ?thesis
    by (simp add: putObjectIfMatch_def Let_def)
qed

theorem putObjectIfMatch_stale_witness:
  "putObjectIfMatch ex_store ''a/b'' (Str ''x'') ''stale-etag'' None ex_world =
     (Inl (StaleDataError ''object was modified concurrently, reload your object first''), ex_world)"
  using putObjectIfMatch_stale [of ex_store "''a/b''" ex_world "''stale-etag''" "Str ''x''" None]
  by (simp add: ex_world_meta js_prop_meta_object calculateEtag_not_stale_etag)

text \<open>
  C2. For every key: when the data file of the key exists, \<open>createObject\<close> fails with
  the \<open>KeyExistsError\<close> and changes nothing. In particular, after a \<open>createObject\<close> of
  the key with body \<open>b1\<close> has succeeded, a second one with body \<open>b2\<close> fails so, and the
  stored content of the key is still that of \<open>b1\<close>.
\<close>

theorem createObject_existing_key:
  "(fileExists (getFilePath st key) w \<longrightarrow>
      createObject st key b2 ct2 w = (Inl (KeyExistsError ''cannot overwrite an existing key''), w))
   \<and> (createObject st key b1 ct1 w0 = (Inr r, w') \<longrightarrow>
      createObject st key b2 ct2 w' = (Inl (KeyExistsError ''cannot overwrite an existing key''), w')
      \<and> fs_readFile (getFilePath st key) (snd (createObject st key b2 ct2 w')) = Inr (to_content b1))"
proof -
  have a: "createObject st key b2 ct2 v = (Inl (KeyExistsError ''cannot overwrite an existing key''), v)"
    if "fileExists (getFilePath st key) v" for v
    using that by (simp add: createObject_def Let_def)
  have "fileExists (getFilePath st key) w' \<and> fs_readFile (getFilePath st key) w' = Inr (to_content b1)"
    if "createObject st key b1 ct1 w0 = (Inr r, w')"
    using createObject_stored(1) [OF that] by (simp add: fs_readFile_fileExists)
  with a show ?thesis by auto
qed

theorem createObject_existing_key_witness:
  "createObject ex_store ''a/b'' (Str ''other'') None ex_world =
      (Inl (KeyExistsError ''cannot overwrite an existing key''), ex_world)
   \<and> fs_readFile (getFilePath ex_store ''a/b'') (snd (createObject ex_store ''a/b'' (Str ''other'') None ex_world))
       = Inr (to_content (Str ''hello''))"
  using createObject_existing_key [of ex_store "''a/b''" ex_world "Str ''other''" None
      "Str ''hello''" "Some ''text/plain''" ex_empty
      "\<lparr>response = Fields (meta_object (calculateEtag (Buffer_from ''hello'')) ''text/plain''),
        etag = Val (JString (calculateEtag (Buffer_from ''hello'')))\<rparr>" ex_world]
    ex_create ex_world_file
  by blast



text \<open>
  C4. After a \<open>createObject\<close> of a key that succeeded and returned the etag \<open>E1\<close>,
  \<open>getObject\<close> of the key succeeds and returns the bytes of the body, as they were
  given, with the etag \<open>E1\<close>: a buffer is read back as the same bytes and a string
  as the same string.
\<close>

theorem createObject_then_getObject:
  assumes "createObject st key b contentType w = (Inr r, w')"
  shows "getObject st key w' = (Inr \<lparr>response = Body (to_content b), etag = etag r\<rparr>, w')
    \<and> etag r = Val (JString (calculateEtag (to_content b)))
    \<and> (b = Buf x \<longrightarrow> asByteArray \<lparr>response = Body (to_content b), etag = etag r\<rparr> = x)
    \<and> (b = Str s \<longrightarrow> asString \<lparr>response = Body (to_content b), etag = etag r\<rparr> = s)"
proof -
  note s = createObject_stored [OF assms]
  show ?thesis
    by (simp add: getObject_def Let_def s js_prop_meta_object asByteArray_def asString_def
        to_content_def Buffer_toString_from)
qed

theorem createObject_then_getObject_witness:
  "getObject ex_store ''a/b'' ex_world =
     (Inr \<lparr>response = Body (Buffer_from ''hello''),
           etag = Val (JString (calculateEtag (Buffer_from ''hello'')))\<rparr>, ex_world)
   \<and> asString \<lparr>response = Body (Buffer_from ''hello''),
           etag = Val (JString (calculateEtag (Buffer_from ''hello'')))\<rparr> = ''hello''"
  using createObject_then_getObject [OF ex_create, of "[]" "''hello''"] by (simp add: to_content_def)

text \<open>
  C5. The etag is computed from the content alone, so equal contents have equal etags.
  As stated the claim also says that different contents have different etags; this is
  false: the two contents below differ and have the same etag.
\<close>

theorem calculateEtag_collision:
  "collision_a \<noteq> collision_b \<and> calculateEtag collision_a = calculateEtag collision_b"
proof
  show "collision_a \<noteq> collision_b"
    by (simp add: collision_a_def collision_b_def)
  show "calculateEtag collision_a = calculateEtag collision_b"
    by (simp add: calculateEtag_def md5_def md5_collision_a md5_collision_b)
qed

text \<open>
  C5, amended. The etag is a function of the content bytes alone: the same content always
  has the same etag, so two etags differ only if the contents differ. It is the MD5 digest
  of the content as 32 lowercase hexadecimal digits between double quotes, also for the
  empty content; it is not injective.
\<close>

theorem calculateEtag_deterministic:
  "(c1 = c2 \<longrightarrow> calculateEtag c1 = calculateEtag c2)
   \<and> (calculateEtag c1 \<noteq> calculateEtag c2 \<longrightarrow> c1 \<noteq> c2)
   \<and> calculateEtag c = [CHR 0x22] @ hex (md5 c) @ [CHR 0x22]
   \<and> length (hex (md5 c)) = 32
   \<and> set (hex (md5 c)) \<subseteq> set ''0123456789abcdef''
   \<and> calculateEtag [] = [CHR 0x22] @ ''d41d8cd98f00b204e9800998ecf8427e'' @ [CHR 0x22]"
  using calculateEtag_empty
  by (auto simp: calculateEtag_def length_hex length_md5 dest: subsetD [OF set_hex])

theorem calculateEtag_deterministic_witness:
  "calculateEtag [0x61] = calculateEtag [0x61]
   \<and> calculateEtag [] \<noteq> calculateEtag collision_a
   \<and> ([] :: byte list) \<noteq> collision_a
   \<and> length (hex (md5 [0x61])) = 32"
proof -
  have "calculateEtag collision_a = CHR 0x22 # ''79054025255fb1a26e4bc422aef54eb4'' @ [CHR 0x22]"
    by (simp add: calculateEtag_def md5_def md5_collision_a le32_bytes_def hex_def hex_digit_def)
  then have "calculateEtag [] \<noteq> calculateEtag collision_a"
    by (simp add: calculateEtag_empty)
  then show ?thesis
    using calculateEtag_deterministic [of "[0x61]" "[0x61]" "[0x61]"]
      calculateEtag_deterministic [of "[]" collision_a "[]"]
    by simp
qed




text \<open>
  C7. As stated the claim says that \<open>list\<close> without a prefix enumerates every object
  key of the bucket. This is false: in \<open>ex_sidecar\<close>, the world after
  \<^verbatim>\<open>createObject('k.meta', ...)\<close> in the empty one, the object \<^verbatim>\<open>k.meta\<close> exists and
  \<open>getObject\<close> returns it, but \<open>list\<close> yields nothing, since it leaves out every file
  whose name ends in \<^verbatim>\<open>.meta\<close>.
\<close>

theorem list_objects_misses_meta_key:
  "fst (getObject ex_store ''k.meta'' ex_sidecar) =
     Inr \<lparr>response = Body (Buffer_from (JSON_stringify (meta_object ''v1'' ''text/plain''))),
          etag = Val (JString (calculateEtag (Buffer_from (JSON_stringify (meta_object ''v1'' ''text/plain'')))))\<rparr>
   \<and> list_objects ex_store [] ex_sidecar = Inr []"
proof
  have "readMeta ex_store ''k.meta'' ex_sidecar =
      meta_object (calculateEtag (Buffer_from (JSON_stringify (meta_object ''v1'' ''text/plain''))))
        ''application/json''"
    by (rule readMeta_written) (simp add: ex_paths ex_fs ex_sidecar_def)
  moreover have "fs_readFile (getFilePath ex_store ''k.meta'') ex_sidecar =
      Inr (Buffer_from (JSON_stringify (meta_object ''v1'' ''text/plain'')))"
    by (simp add: ex_paths ex_fs ex_sidecar_def)
  ultimately show "fst (getObject ex_store ''k.meta'' ex_sidecar) =
     Inr \<lparr>response = Body (Buffer_from (JSON_stringify (meta_object ''v1'' ''text/plain''))),
          etag = Val (JString (calculateEtag (Buffer_from (JSON_stringify (meta_object ''v1'' ''text/plain'')))))\<rparr>"
    by (simp add: getObject_def Let_def js_prop_meta_object)
  show "list_objects ex_store [] ex_sidecar = Inr []"
    by (simp add: list_objects_def ex_paths ex_fs ex_sidecar_def endsWith_def)
qed

text \<open>
  C7, amended. If the prefix path does not exist under the bucket root, \<open>list\<close> yields
  the empty sequence and no error. If it is a directory, \<open>list\<close> traverses the subtree
  depth-first: every regular file whose name does not end in \<^verbatim>\<open>.meta\<close> becomes exactly one
  listing entry, whose \<open>Key\<close> is the path relative to the bucket root with a forward slash
  for every backslash, and the entries are yielded as one batch, or as no batch when there
  is none. So \<open>list\<close> never includes a name ending in \<^verbatim>\<open>.meta\<close>, and without a prefix it
  enumerates exactly once every object whose data file has a name not ending in
  \<^verbatim>\<open>.meta\<close>.
\<close>

theorem list_objects_entries:
  "(\<not> fileExists (path_join (basePath st) pfx0) w0 \<longrightarrow> list_objects st pfx0 w0 = Inr [])
   \<and> (fs_readdir (path_join (basePath st) pfx) w = Inr es \<and> wf_entries es \<longrightarrow>
        (\<exists>ps. distinct ps
           \<and> (\<forall>p. (p \<in> set ps) =
                 ((\<exists>c t. lookup es p = Inr (File c t)) \<and> \<not> endsWith (last p) ''.meta''))
           \<and> map Key (walk (path_join (basePath st) pfx) (basePath st) es)
               = map (\<lambda>p. entry_key (basePath st) (segs (path_join (basePath st) pfx) @ p)) ps
           \<and> list_objects st pfx w =
               Inr (if ps = [] then [] else [walk (path_join (basePath st) pfx) (basePath st) es])))"
proof (intro conjI impI)
  assume "\<not> fileExists (path_join (basePath st) pfx0) w0"
  then show "list_objects st pfx0 w0 = Inr []"
    by (simp add: list_objects_def fileExists_def split: sum.splits)
next
  let ?sp = "path_join (basePath st) pfx"
  assume a: "fs_readdir ?sp w = Inr es \<and> wf_entries es"
  then have acc: "fs_access ?sp w = Inr ()"
    by (auto simp: fs_readdir_def fs_access_def split: sum.splits node.splits)
  have "list_objects st pfx w = Inr (if file_paths es = [] then [] else [walk ?sp (basePath st) es])"
    using a acc walk_Nil [of es ?sp "basePath st"] by (simp add: list_objects_def Let_def)
  with a show "\<exists>ps. distinct ps
           \<and> (\<forall>p. (p \<in> set ps) =
                 ((\<exists>c t. lookup es p = Inr (File c t)) \<and> \<not> endsWith (last p) ''.meta''))
           \<and> map Key (walk ?sp (basePath st) es)
               = map (\<lambda>p. entry_key (basePath st) (segs ?sp @ p)) ps
           \<and> list_objects st pfx w = Inr (if ps = [] then [] else [walk ?sp (basePath st) es])"
    by (intro exI [of _ "file_paths es"]) (simp add: file_paths_distinct file_paths_iff walk_keys)
qed

theorem list_objects_entries_witness:
  "list_objects ex_store ''zz'' ex_world = Inr []
   \<and> (\<exists>ps. distinct ps
         \<and> (\<forall>p. (p \<in> set ps) =
               ((\<exists>c t. lookup (rootdir ex_nometa) ([''home'', ''.s3StoreMock'', ''bkt''] @ p) = Inr (File c t))
                \<and> \<not> endsWith (last p) ''.meta''))
         \<and> map Key (walk (path_join (basePath ex_store) []) (basePath ex_store)
               [(''a'', Dir [(''b'', File (Buffer_from ''hello'') 0)])])
             = map (\<lambda>p. entry_key (basePath ex_store) (segs (path_join (basePath ex_store) []) @ p)) ps
         \<and> list_objects ex_store [] ex_nometa =
             Inr (if ps = [] then []
                  else [walk (path_join (basePath ex_store) []) (basePath ex_store)
                          [(''a'', Dir [(''b'', File (Buffer_from ''hello'') 0)])]]))
   \<and> list_objects ex_store [] ex_world = Inr [[\<lparr>Key = ''a/b'', LastModified = 0, Size = 5\<rparr>]]"
proof -
  let ?es = "[(''a'', Dir [(''b'', File (Buffer_from ''hello'') 0)])]"
  have n: "\<not> fileExists (path_join (basePath ex_store) ''zz'') ex_world"
    by (simp add: ex_paths ex_fs ex_world_def)
  have r: "fs_readdir (path_join (basePath ex_store) []) ex_nometa = Inr ?es \<and> wf_entries ?es"
    by (simp add: ex_paths ex_fs ex_nometa_def plain_name_def)
  have l: "lookup (rootdir ex_nometa) ([''home'', ''.s3StoreMock'', ''bkt''] @ p) = lookup ?es p" for p
    by (simp add: lookup_append ex_nometa_def)
  have e: "list_objects ex_store [] ex_world = Inr [[\<lparr>Key = ''a/b'', LastModified = 0, Size = 5\<rparr>]]"
    by (simp add: list_objects_def ex_paths ex_fs ex_world_def endsWith_def path_relative_def
        Buffer_from_def)
  from list_objects_entries [of ex_store "''zz''" ex_world "[]" ex_nometa ?es] n r e
  show ?thesis by (simp only: l simp_thms)
qed

text \<open>
  C8. For a key with its data file and no (or no parsable) metadata file, \<open>getObject\<close>
  succeeds and returns the stored bytes. The etag of its response is then \<^verbatim>\<open>undefined\<close>,
  not \<^verbatim>\<open>null\<close> as the claim and the declaration \<^verbatim>\<open>etag: string | null\<close> of
  \<^verbatim>\<open>index.d.ts\<close> say: in \<open>ex_nometa\<close> the key \<^verbatim>\<open>a/b\<close> has its data file only.
\<close>

theorem getObject_without_metadata:
  "readMeta ex_store ''a/b'' ex_nometa = JNull
   \<and> getObject ex_store ''a/b'' ex_nometa =
       (Inr \<lparr>response = Body (Buffer_from ''hello''), etag = Undefined\<rparr>, ex_nometa)
   \<and> Undefined \<noteq> Val JNull"
  by (simp add: getObject_def readMeta_def js_prop_def ex_paths ex_fs ex_nometa_def)





end
